theory Spec2Isabelle
  imports Main
begin

section \<open>The falling-block game of \<open>src/App.tsx\<close>\<close>

text \<open>
  The component \<open>Tetris\<close> keeps five pieces of state (\<open>board\<close>, \<open>currentPiece\<close>,
  \<open>position\<close>, \<open>gameOver\<close>, \<open>score\<close>) and a handful of callbacks that read them and
  queue updates. Numbers of the source are modelled as unbounded integers: positions
  start at integers and move by one, the score by hundreds.
\<close>

subsection \<open>Constants and data\<close>

definition BOARD_WIDTH :: int where
  "BOARD_WIDTH = 10"

definition BOARD_HEIGHT :: int where
  "BOARD_HEIGHT = 20"

text \<open>
  A board cell has type \<open>string | 0\<close>. The third constructor is what JavaScript yields
  for an index at which a row holds nothing: \<open>undefined\<close>.
\<close>

datatype cell = Zero | Str string | Undefined

text \<open>An entry of a shape matrix is a number, or \<open>undefined\<close> when read past a row's end.\<close>

datatype entry = Num int | NoEntry

datatype error = TypeError

record tetromino =
  shape :: "entry list list"
  color :: string

text \<open>The object \<open>{ x, y }\<close> held by \<open>position\<close>.\<close>

record point =
  pos_x :: int
  pos_y :: int

record game =
  board :: "cell list list"
  currentPiece :: "tetromino option"
  position :: point
  gameOver :: bool
  score :: int

definition piece :: "int list list \<Rightarrow> string \<Rightarrow> tetromino" where
  "piece rows c = \<lparr>shape = map (map Num) rows, color = c\<rparr>"

definition TETROMINOS :: "tetromino list" where
  "TETROMINOS =
     [piece [[1, 1], [1, 1]] ''#ffd800'',
      piece [[1, 1, 1, 1]] ''#00f0f0'',
      piece [[1, 1, 1], [0, 1, 0]] ''#aa00ff'',
      piece [[1, 1, 0], [0, 1, 1]] ''#ff0000'',
      piece [[0, 1, 1], [1, 1, 0]] ''#00ff00'',
      piece [[1, 1, 1], [1, 0, 0]] ''#0000ff'',
      piece [[1, 1, 1], [0, 0, 1]] ''#ff7f00'']"

definition emptyRow :: "cell list" where
  "emptyRow = replicate (nat BOARD_WIDTH) Zero"

definition createEmptyBoard :: "cell list list" where
  "createEmptyBoard = replicate (nat BOARD_HEIGHT) emptyRow"

definition initialState :: game where
  "initialState =
     \<lparr>board = createEmptyBoard, currentPiece = None,
      position = \<lparr>pos_x = 0, pos_y = 0\<rparr>, gameOver = False, score = 0\<rparr>"

subsection \<open>Reading and writing arrays\<close>

text \<open>\<open>if (piece.shape[y][x])\<close>: a number is truthy unless it is zero.\<close>

fun truthy :: "entry \<Rightarrow> bool" where
  "truthy (Num n) = (n \<noteq> 0)"
| "truthy NoEntry = False"

text \<open>\<open>row[index]\<close> on a row of a shape.\<close>

definition entryAt :: "entry list \<Rightarrow> nat \<Rightarrow> entry" where
  "entryAt row i = (if i < length row then row ! i else NoEntry)"

text \<open>\<open>row[c]\<close> on a row of the board.\<close>

definition cellAt :: "cell list \<Rightarrow> int \<Rightarrow> cell" where
  "cellAt row c = (if 0 \<le> c \<and> c < int (length row) then row ! nat c else Undefined)"

text \<open>
  \<open>board[r]\<close>: the row, or nothing (\<open>undefined\<close>) outside the array; indexing or
  assigning into that \<open>undefined\<close> throws a TypeError.
\<close>

definition rowAt :: "cell list list \<Rightarrow> int \<Rightarrow> cell list option" where
  "rowAt b r = (if 0 \<le> r \<and> r < int (length b) then Some (b ! nat r) else None)"

text \<open>
  \<open>row[c] = v\<close>. Inside the row the element is replaced. Past the end JavaScript grows
  the array, leaving holes that read as \<open>undefined\<close>. A negative index sets a property
  of that name and no element; no read of this program reaches such a property
  (\<open>isValidMove\<close> rejects a negative column before reading, and copies and \<open>some\<close>
  visit elements only), so the elements are left as they are.
\<close>

definition assign :: "cell list \<Rightarrow> int \<Rightarrow> cell \<Rightarrow> cell list" where
  "assign row c v =
     (if c < 0 then row
      else if c < int (length row) then row[nat c := v]
      else row @ replicate (nat c - length row) Undefined @ [v])"

text \<open>\<open>newBoard[r][c] = v\<close>.\<close>

definition setCell :: "cell list list \<Rightarrow> int \<Rightarrow> int \<Rightarrow> cell \<Rightarrow> error + cell list list" where
  "setCell b r c v =
     (case rowAt b r of
        None \<Rightarrow> Inl TypeError
      | Some row \<Rightarrow> Inr (b[nat r := assign row c v]))"

subsection \<open>\<open>isValidMove\<close>\<close>

text \<open>
  The inner loop over \<open>x\<close>, from index \<open>x\<close> on, with the remaining entries of the row;
  \<open>boardY\<close> is \<open>newY + y\<close>. \<open>Inr False\<close> is the early \<open>return false\<close>.
\<close>

fun validRow :: "cell list list \<Rightarrow> int \<Rightarrow> int \<Rightarrow> entry list \<Rightarrow> nat \<Rightarrow> error + bool" where
  "validRow b newX boardY [] x = Inr True"
| "validRow b newX boardY (e # es) x =
     (if truthy e then
        (let boardX = newX + int x in
         if boardX < 0 \<or> boardX \<ge> BOARD_WIDTH \<or> boardY \<ge> BOARD_HEIGHT then Inr False
         else if boardY \<ge> 0 then
           (case rowAt b boardY of
              None \<Rightarrow> Inl TypeError
            | Some row \<Rightarrow>
                if cellAt row boardX \<noteq> Zero then Inr False
                else validRow b newX boardY es (Suc x))
         else validRow b newX boardY es (Suc x))
      else validRow b newX boardY es (Suc x))"

text \<open>The outer loop over \<open>y\<close>, from index \<open>y\<close> on, with the remaining rows of the shape.\<close>

fun validRows :: "cell list list \<Rightarrow> int \<Rightarrow> int \<Rightarrow> entry list list \<Rightarrow> nat \<Rightarrow> error + bool" where
  "validRows b newX newY [] y = Inr True"
| "validRows b newX newY (r # rs) y =
     (case validRow b newX (newY + int y) r 0 of
        Inl e \<Rightarrow> Inl e
      | Inr False \<Rightarrow> Inr False
      | Inr True \<Rightarrow> validRows b newX newY rs (Suc y))"

definition isValidMove :: "cell list list \<Rightarrow> tetromino \<Rightarrow> int \<Rightarrow> int \<Rightarrow> error + bool" where
  "isValidMove b p newX newY = validRows b newX newY (shape p) 0"

subsection \<open>Callbacks\<close>

text \<open>
  A callback closes over the state of the render that created it, and its setter calls
  are queued, not applied to what it reads. So every callback below takes two states:
  \<open>s\<close>, the render's values that it reads, and \<open>t\<close>, the state its queued updates
  have produced so far. \<open>setBoard v\<close> replaces a field of \<open>t\<close>; the functional update
  \<open>setPosition (prev => ...)\<close> is applied to the position of \<open>t\<close>. A handler that
  starts from a fresh render is run with \<open>t = s\<close>.
\<close>

text \<open>
  \<open>spawnNewPiece\<close>, with the random index \<open>Math.floor(Math.random() * TETROMINOS.length)\<close>
  as the parameter \<open>i\<close>, one of \<open>0, ..., 6\<close>.
\<close>

definition spawnNewPiece :: "nat \<Rightarrow> game \<Rightarrow> game" where
  "spawnNewPiece i t =
     t\<lparr>currentPiece := Some (TETROMINOS ! i),
       position := \<lparr>pos_x = BOARD_WIDTH div 2 - 1, pos_y = 0\<rparr>\<rparr>"

text \<open>The loops of \<open>mergePieceToBoard\<close>; \<open>r\<close> is \<open>position.y + y\<close>.\<close>

fun mergeRow :: "cell list list \<Rightarrow> int \<Rightarrow> int \<Rightarrow> string \<Rightarrow> entry list \<Rightarrow> nat \<Rightarrow> error + cell list list" where
  "mergeRow nb r px c [] x = Inr nb"
| "mergeRow nb r px c (e # es) x =
     (if truthy e then
        (case setCell nb r (px + int x) (Str c) of
           Inl err \<Rightarrow> Inl err
         | Inr nb' \<Rightarrow> mergeRow nb' r px c es (Suc x))
      else mergeRow nb r px c es (Suc x))"

fun mergeRows :: "cell list list \<Rightarrow> int \<Rightarrow> int \<Rightarrow> string \<Rightarrow> entry list list \<Rightarrow> nat \<Rightarrow> error + cell list list" where
  "mergeRows nb px py c [] y = Inr nb"
| "mergeRows nb px py c (r # rs) y =
     (case mergeRow nb (py + int y) px c r 0 of
        Inl err \<Rightarrow> Inl err
      | Inr nb' \<Rightarrow> mergeRows nb' px py c rs (Suc y))"

definition mergePieceToBoard :: "game \<Rightarrow> game \<Rightarrow> error + game" where
  "mergePieceToBoard s t =
     (case currentPiece s of
        None \<Rightarrow> Inr t
      | Some p \<Rightarrow>
          (case mergeRows (board s) (pos_x (position s)) (pos_y (position s)) (color p) (shape p) 0 of
             Inl err \<Rightarrow> Inl err
           | Inr newBoard \<Rightarrow> Inr (t\<lparr>board := newBoard\<rparr>)))"

definition moveDown :: "nat \<Rightarrow> game \<Rightarrow> game \<Rightarrow> error + game" where
  "moveDown i s t =
     (case currentPiece s of
        None \<Rightarrow> Inr t
      | Some p \<Rightarrow>
          (case isValidMove (board s) p (pos_x (position s)) (pos_y (position s) + 1) of
             Inl err \<Rightarrow> Inl err
           | Inr True \<Rightarrow> Inr (t\<lparr>position := (position t)\<lparr>pos_y := pos_y (position t) + 1\<rparr>\<rparr>)
           | Inr False \<Rightarrow>
               (case mergePieceToBoard s t of
                  Inl err \<Rightarrow> Inl err
                | Inr t' \<Rightarrow> Inr (spawnNewPiece i t'))))"

definition moveHorizontally :: "int \<Rightarrow> game \<Rightarrow> game \<Rightarrow> error + game" where
  "moveHorizontally direction s t =
     (case currentPiece s of
        None \<Rightarrow> Inr t
      | Some p \<Rightarrow>
          (case isValidMove (board s) p (pos_x (position s) + direction) (pos_y (position s)) of
             Inl err \<Rightarrow> Inl err
           | Inr True \<Rightarrow> Inr (t\<lparr>position := (position t)\<lparr>pos_x := pos_x (position t) + direction\<rparr>\<rparr>)
           | Inr False \<Rightarrow> Inr t))"

text \<open>
  The shape computed in \<open>rotate\<close>:
  \<open>shape[0].map((_, index) => shape.map(row => row[index]).reverse())\<close>.
  With no row at all, \<open>shape[0]\<close> is \<open>undefined\<close> and \<open>.map\<close> throws.
\<close>

definition rotateShape :: "entry list list \<Rightarrow> error + entry list list" where
  "rotateShape sh =
     (case sh of
        [] \<Rightarrow> Inl TypeError
      | r0 # _ \<Rightarrow> Inr (map (\<lambda>index. rev (map (\<lambda>row. entryAt row index) sh)) [0..<length r0]))"

text \<open>The callback \<open>rotate\<close>; the name is longer here because lists have a \<open>rotate\<close> of their own.\<close>

definition rotate_piece :: "game \<Rightarrow> game \<Rightarrow> error + game" where
  "rotate_piece s t =
     (case currentPiece s of
        None \<Rightarrow> Inr t
      | Some p \<Rightarrow>
          (case rotateShape (shape p) of
             Inl err \<Rightarrow> Inl err
           | Inr sh \<Rightarrow>
               (let rotatedPiece = p\<lparr>shape := sh\<rparr> in
                case isValidMove (board s) rotatedPiece (pos_x (position s)) (pos_y (position s)) of
                  Inl err \<Rightarrow> Inl err
                | Inr True \<Rightarrow> Inr (t\<lparr>currentPiece := Some rotatedPiece\<rparr>)
                | Inr False \<Rightarrow> Inr t)))"

text \<open>The \<open>while\<close> loop of \<open>checkLines\<close>: \<open>unshift\<close> an empty row until the height is reached.\<close>

function unshiftRows :: "cell list list \<Rightarrow> cell list list" where
  "unshiftRows nb = (if int (length nb) < BOARD_HEIGHT then unshiftRows (emptyRow # nb) else nb)"
  by pat_completeness auto
termination
  by (relation "measure (\<lambda>nb. nat BOARD_HEIGHT - length nb)") (auto simp: BOARD_HEIGHT_def)

declare unshiftRows.simps [simp del]

text \<open>\<open>row.some(cell => cell === 0)\<close>.\<close>

definition hasEmpty :: "cell list \<Rightarrow> bool" where
  "hasEmpty row = list_ex (\<lambda>cell. cell = Zero) row"

definition checkLines :: "game \<Rightarrow> game \<Rightarrow> game" where
  "checkLines s t =
     (let newBoard = filter hasEmpty (board s);
          linesCleared = BOARD_HEIGHT - int (length newBoard);
          newScore = score s + linesCleared * 100
      in t\<lparr>score := newScore, board := unshiftRows newBoard\<rparr>)"

subsection \<open>Handlers, effects and the step of the engine\<close>

definition handleKeyPress :: "nat \<Rightarrow> string \<Rightarrow> game \<Rightarrow> error + game" where
  "handleKeyPress i key s =
     (if gameOver s then Inr s
      else if key = ''ArrowLeft'' then moveHorizontally (- 1) s s
      else if key = ''ArrowRight'' then moveHorizontally 1 s s
      else if key = ''ArrowDown'' then moveDown i s s
      else if key = ''ArrowUp'' then rotate_piece s s
      else Inr s)"

text \<open>
  The interval callback \<open>moveDown(); checkLines();\<close>. Both callbacks belong to the same
  render, so \<open>checkLines\<close> reads the board and score of \<open>s\<close>, not what \<open>moveDown\<close> has
  queued. The interval is installed only while \<open>gameOver\<close> is false.
\<close>

definition tick :: "nat \<Rightarrow> game \<Rightarrow> error + game" where
  "tick i s =
     (if gameOver s then Inr s
      else (case moveDown i s s of
              Inl err \<Rightarrow> Inl err
            | Inr t \<Rightarrow> Inr (checkLines s t)))"

text \<open>The effect \<open>if (!currentPiece) spawnNewPiece()\<close>.\<close>

definition spawnEffect :: "nat \<Rightarrow> game \<Rightarrow> game" where
  "spawnEffect i s = (if currentPiece s = None then spawnNewPiece i s else s)"

text \<open>The effect that sets \<open>gameOver\<close> when the piece is not valid where it is.\<close>

definition gameOverEffect :: "game \<Rightarrow> error + game" where
  "gameOverEffect s =
     (case currentPiece s of
        None \<Rightarrow> Inr s
      | Some p \<Rightarrow>
          (case isValidMove (board s) p (pos_x (position s)) (pos_y (position s)) of
             Inl err \<Rightarrow> Inl err
           | Inr ok \<Rightarrow> Inr (if \<not> ok then s\<lparr>gameOver := True\<rparr> else s)))"

definition effects :: "nat \<Rightarrow> game \<Rightarrow> error + game" where
  "effects i s = gameOverEffect (spawnEffect i s)"

datatype event = KeyDown string | Tick

text \<open>
  One step of the engine: an event is handled, the component renders again and its
  effects run before the next event is handled.
\<close>

definition step :: "nat \<Rightarrow> event \<Rightarrow> game \<Rightarrow> error + game" where
  "step i ev s =
     (case (case ev of KeyDown key \<Rightarrow> handleKeyPress i key s | Tick \<Rightarrow> tick i s) of
        Inl err \<Rightarrow> Inl err
      | Inr t \<Rightarrow> effects i t)"

text \<open>
  The states the engine can be in: the first render, the state after the effects of
  the first render, and every state a step leads to.
\<close>

inductive reachable :: "game \<Rightarrow> bool" where
  first_render: "reachable initialState"
| mounted: "i < length TETROMINOS \<Longrightarrow> effects i initialState = Inr s \<Longrightarrow> reachable s"
| stepped: "reachable s \<Longrightarrow> i < length TETROMINOS \<Longrightarrow> step i ev s = Inr s' \<Longrightarrow> reachable s'"

text \<open>A run of the engine: events handled one after the other, each with its random index.\<close>

fun run :: "(nat \<times> event) list \<Rightarrow> game \<Rightarrow> error + game" where
  "run [] s = Inr s"
| "run ((i, ev) # evs) s =
     (case step i ev s of
        Inl err \<Rightarrow> Inl err
      | Inr s' \<Rightarrow> run evs s')"

subsection \<open>Notions used to state the properties\<close>

text \<open>A board of \<open>BOARD_HEIGHT\<close> rows of \<open>BOARD_WIDTH\<close> cells each.\<close>

definition wfBoard :: "cell list list \<Rightarrow> bool" where
  "wfBoard b \<longleftrightarrow>
     int (length b) = BOARD_HEIGHT \<and> list_all (\<lambda>row. int (length row) = BOARD_WIDTH) b"

text \<open>The occupied cells of a shape, as (column, row) offsets in the matrix.\<close>

definition occupied :: "entry list list \<Rightarrow> (nat \<times> nat) list" where
  "occupied sh =
     concat (map (\<lambda>y. map (\<lambda>x. (x, y)) (filter (\<lambda>x. truthy (sh ! y ! x)) [0..<length (sh ! y)]))
                 [0..<length sh])"

text \<open>The absolute (column, row) coordinates of the occupied cells for an origin.\<close>

definition cellsAt :: "entry list list \<Rightarrow> int \<Rightarrow> int \<Rightarrow> (int \<times> int) list" where
  "cellsAt sh originColumn originRow =
     map (\<lambda>(x, y). (originColumn + int x, originRow + int y)) (occupied sh)"

text \<open>The condition under which one cell at (column, row) makes a move invalid.\<close>

definition rejects :: "cell list list \<Rightarrow> int \<times> int \<Rightarrow> bool" where
  "rejects b cr =
     (case cr of (column, row) \<Rightarrow>
        column < 0 \<or> column \<ge> BOARD_WIDTH \<or> row \<ge> BOARD_HEIGHT \<or>
        (row \<ge> 0 \<and> b ! nat row ! nat column \<noteq> Zero))"

text \<open>Every occupied cell of the shape lies on the board for the given origin.\<close>

definition onBoard :: "entry list list \<Rightarrow> point \<Rightarrow> bool" where
  "onBoard sh pos \<longleftrightarrow>
     list_all (\<lambda>(column, row). 0 \<le> column \<and> column < BOARD_WIDTH \<and> 0 \<le> row \<and> row < BOARD_HEIGHT)
              (cellsAt sh (pos_x pos) (pos_y pos))"

text \<open>A matrix of \<open>m\<close> rows and \<open>n\<close> columns, with at least one row and one column.\<close>

definition rectangular :: "entry list list \<Rightarrow> nat \<Rightarrow> nat \<Rightarrow> bool" where
  "rectangular sh m n \<longleftrightarrow>
     0 < m \<and> 0 < n \<and> length sh = m \<and> list_all (\<lambda>row. length row = n) sh"

text \<open>A row in which no cell is empty.\<close>

definition fullRow :: "cell list \<Rightarrow> bool" where
  "fullRow row \<longleftrightarrow> list_all (\<lambda>cell. cell \<noteq> Zero) row"

text \<open>The rotation in the words of the specification: transpose, then reverse each row.\<close>

definition transposeReverse :: "entry list list \<Rightarrow> entry list list" where
  "transposeReverse sh = map rev (transpose sh)"

text \<open>
  The column offsets of the truthy entries of a row whose first entry has offset \<open>x\<close>,
  and the (column, row) offsets of the truthy entries of rows whose first has offset \<open>y\<close>:
  the cells the loops of the source visit and act on.
\<close>

fun truthyFrom :: "entry list \<Rightarrow> nat \<Rightarrow> nat list" where
  "truthyFrom [] x = []"
| "truthyFrom (e # es) x = (if truthy e then [x] else []) @ truthyFrom es (Suc x)"

fun cellsFrom :: "entry list list \<Rightarrow> nat \<Rightarrow> (nat \<times> nat) list" where
  "cellsFrom [] y = []"
| "cellsFrom (r # rs) y = map (\<lambda>x. (x, y)) (truthyFrom r 0) @ cellsFrom rs (Suc y)"

text \<open>A shape that is a matrix with at least one row and one column.\<close>

definition isRect :: "entry list list \<Rightarrow> bool" where
  "isRect sh \<longleftrightarrow> rectangular sh (length sh) (length (hd sh))"

text \<open>Every cell of the board \<open>b\<close> that is not 0 holds the same value in \<open>b'\<close>.\<close>

definition keepsOccupied :: "cell list list \<Rightarrow> cell list list \<Rightarrow> bool" where
  "keepsOccupied b b' \<longleftrightarrow>
     (\<forall>r<nat BOARD_HEIGHT. \<forall>c<nat BOARD_WIDTH. b ! r ! c \<noteq> Zero \<longrightarrow> b' ! r ! c = b ! r ! c)"

text \<open>
  What holds of a state once a handler has run and before the effects have:
  the board has its dimensions, the origin row is not negative, and the piece, if
  there is one, is a matrix and lies on the board.
\<close>

definition settled :: "game \<Rightarrow> bool" where
  "settled s \<longleftrightarrow>
     wfBoard (board s) \<and> 0 \<le> pos_y (position s) \<and>
     (gameOver s \<longrightarrow> currentPiece s \<noteq> None) \<and>
     (\<forall>p. currentPiece s = Some p \<longrightarrow> isRect (shape p) \<and> onBoard (shape p) (position s))"

text \<open>
  What holds of every state between two events: in addition, while the game is not
  over the piece is valid where it is.
\<close>

definition invariant :: "game \<Rightarrow> bool" where
  "invariant s \<longleftrightarrow>
     settled s \<and>
     (\<forall>p. currentPiece s = Some p \<longrightarrow> \<not> gameOver s \<longrightarrow>
        isValidMove (board s) p (pos_x (position s)) (pos_y (position s)) = Inr True)"

text \<open>The rotation of the current piece is accepted by \<open>isValidMove\<close> in state \<open>s\<close>.\<close>

definition accepted :: "game \<Rightarrow> bool" where
  "accepted s \<longleftrightarrow>
     (case currentPiece s of
        None \<Rightarrow> False
      | Some p \<Rightarrow>
          (case rotateShape (shape p) of
             Inl err \<Rightarrow> False
           | Inr sh \<Rightarrow>
               isValidMove (board s) (p\<lparr>shape := sh\<rparr>) (pos_x (position s)) (pos_y (position s)) = Inr True))"

subsection \<open>States used as examples\<close>

text \<open>A state in play with the given board, piece and origin.\<close>

definition playing :: "cell list list \<Rightarrow> tetromino \<Rightarrow> int \<Rightarrow> int \<Rightarrow> game" where
  "playing b p c r =
     \<lparr>board = b, currentPiece = Some p, position = \<lparr>pos_x = c, pos_y = r\<rparr>,
      gameOver = False, score = 0\<rparr>"

text \<open>A board whose two bottom rows are full and whose third row from the bottom holds one cell.\<close>

definition twoFullRows :: "cell list list" where
  "twoFullRows =
     replicate 17 emptyRow @
     [Str ''#aa00ff'' # replicate 9 Zero,
      replicate 10 (Str ''#ff0000''),
      replicate 10 (Str ''#00ff00'')]"

text \<open>
  Keys that turn the I piece upright and press it down \<open>n\<close> rows and once more, so
  that it settles; the next piece drawn is the I piece again.
\<close>

definition dropUpright :: "nat \<Rightarrow> (nat \<times> event) list" where
  "dropUpright n = (1, KeyDown ''ArrowUp'') # replicate (Suc n) (1, KeyDown ''ArrowDown'')"

text \<open>Five upright I pieces stacked in column 4, from the floor to the top row.\<close>

definition stackColumn :: "(nat \<times> event) list" where
  "stackColumn = dropUpright 16 @ dropUpright 12 @ dropUpright 8 @ dropUpright 4 @ dropUpright 0"

text \<open>The state after the first render's effects when the I piece is drawn.\<close>

definition mountedState :: game where
  "mountedState = playing createEmptyBoard (TETROMINOS ! 1) 4 0"

text \<open>The upright I piece above the floor of the empty board, after one turn and 16 rows down.\<close>

definition uprightAtFloor :: game where
  "uprightAtFloor = playing createEmptyBoard (piece [[1], [1], [1], [1]] ''#00f0f0'') 4 16"

text \<open>Column 4 filled by the stack, the next I piece lying across it: the game is over.\<close>

definition fullColumn :: "cell list list" where
  "fullColumn = replicate 20 (replicate 4 Zero @ [Str ''#00f0f0''] @ replicate 5 Zero)"

definition lostState :: game where
  "lostState = (playing fullColumn (TETROMINOS ! 1) 4 0)\<lparr>gameOver := True\<rparr>"

section \<open>Properties\<close>

subsection \<open>The collision check\<close>

lemma wfBoard_rowAt:
  "wfBoard b \<Longrightarrow> 0 \<le> r \<Longrightarrow> r < BOARD_HEIGHT \<Longrightarrow> rowAt b r = Some (b ! nat r)"
  by (simp add: wfBoard_def rowAt_def)

lemma wfBoard_row_length:
  "wfBoard b \<Longrightarrow> 0 \<le> r \<Longrightarrow> r < BOARD_HEIGHT \<Longrightarrow> int (length (b ! nat r)) = BOARD_WIDTH"
  by (auto simp: wfBoard_def list_all_length)

lemma wfBoard_cellAt:
  "wfBoard b \<Longrightarrow> 0 \<le> r \<Longrightarrow> r < BOARD_HEIGHT \<Longrightarrow> 0 \<le> c \<Longrightarrow> c < BOARD_WIDTH \<Longrightarrow>
   cellAt (b ! nat r) c = b ! nat r ! nat c"
  using wfBoard_row_length [of b r] by (simp add: cellAt_def)

lemma validRow_wf:
  assumes "wfBoard b"
  shows "validRow b newX boardY es x0 =
         Inr (\<forall>k<length es. truthy (es ! k) \<longrightarrow> \<not> rejects b (newX + int (x0 + k), boardY))"
proof (induction es arbitrary: x0)
  case Nil
  show ?case by simp
next
  case (Cons e es)
  show ?case
  proof (cases "truthy e")
    case False
    then show ?thesis
      by (simp add: Cons.IH All_less_Suc2 ac_simps)
  next
    case True
    show ?thesis
    proof (cases "newX + int x0 < 0 \<or> newX + int x0 \<ge> BOARD_WIDTH \<or> boardY \<ge> BOARD_HEIGHT")
      case True
      with \<open>truthy e\<close> show ?thesis
        by (auto simp: rejects_def)
    next
      case inside: False
      show ?thesis
      proof (cases "boardY \<ge> 0")
        case False
        with inside \<open>truthy e\<close> show ?thesis
          by (simp add: Cons.IH All_less_Suc2 rejects_def ac_simps)
      next
        case True
        with inside have row: "rowAt b boardY = Some (b ! nat boardY)"
          and cell: "cellAt (b ! nat boardY) (newX + int x0) = b ! nat boardY ! nat (newX + int x0)"
          using assms by (simp_all add: wfBoard_rowAt wfBoard_cellAt)
        from True inside \<open>truthy e\<close> show ?thesis
          by (simp add: Cons.IH All_less_Suc2 rejects_def row cell ac_simps)
      qed
    qed
  qed
qed

lemma validRows_wf:
  assumes "wfBoard b"
  shows "validRows b newX newY rs y0 =
         Inr (\<forall>j<length rs. \<forall>k<length (rs ! j). truthy (rs ! j ! k) \<longrightarrow>
                \<not> rejects b (newX + int k, newY + int (y0 + j)))"
proof (induction rs arbitrary: y0)
  case Nil
  show ?case by simp
next
  case (Cons r rs)
  show ?case
    by (simp add: validRow_wf [OF assms] Cons.IH All_less_Suc2 ac_simps split: bool.splits)
qed

lemma set_occupied:
  "set (occupied sh) = {(x, y). y < length sh \<and> x < length (sh ! y) \<and> truthy (sh ! y ! x)}"
  by (auto simp: occupied_def)

lemma set_cellsAt:
  "set (cellsAt sh c r) =
     {(c + int x, r + int y) | x y. y < length sh \<and> x < length (sh ! y) \<and> truthy (sh ! y ! x)}"
  by (auto simp: cellsAt_def set_occupied)

lemma isValidMove_wf:
  assumes "wfBoard b"
  shows "isValidMove b p c r = Inr (\<not> (\<exists>cell\<in>set (cellsAt (shape p) c r). rejects b cell))"
  unfolding isValidMove_def validRows_wf [OF assms] set_cellsAt by auto

text \<open>
  Claim C1. On a board of \<open>BOARD_HEIGHT\<close> rows of \<open>BOARD_WIDTH\<close> cells, \<open>isValidMove\<close>
  returns false exactly when some occupied cell of the shape, at its absolute coordinate,
  has a column below 0 or from \<open>BOARD_WIDTH\<close> on, or a row from \<open>BOARD_HEIGHT\<close> on, or a
  row from 0 on and a board cell that is not 0 there; otherwise it returns true, and it
  never throws. In particular cells above the board that are horizontally in bounds never
  cause a rejection, and a cell out of bounds causes one whatever the board holds.
  The function maps its arguments to a result and has no state to change.
\<close>

theorem isValidMove_characterisation:
  assumes "wfBoard b"
  shows "(isValidMove b p originColumn originRow = Inr False \<longleftrightarrow>
            (\<exists>cell\<in>set (cellsAt (shape p) originColumn originRow). rejects b cell)) \<and>
         (isValidMove b p originColumn originRow = Inr True \<longleftrightarrow>
            \<not> (\<exists>cell\<in>set (cellsAt (shape p) originColumn originRow). rejects b cell)) \<and>
         ((\<forall>(column, row)\<in>set (cellsAt (shape p) originColumn originRow).
             0 \<le> column \<and> column < BOARD_WIDTH \<and> row < 0) \<longrightarrow>
            isValidMove b p originColumn originRow = Inr True) \<and>
         ((\<exists>(column, row)\<in>set (cellsAt (shape p) originColumn originRow).
             column < 0 \<or> column \<ge> BOARD_WIDTH \<or> row \<ge> BOARD_HEIGHT) \<longrightarrow>
            isValidMove b p originColumn originRow = Inr False)"
  unfolding isValidMove_wf [OF assms]
  by (fastforce simp: rejects_def BOARD_HEIGHT_def)

text \<open>
  The O piece on the empty board: rejected at column 9, where its right half leaves the
  board, and accepted two rows above the board.
\<close>

theorem isValidMove_characterisation_witness:
  "wfBoard createEmptyBoard \<and>
   isValidMove createEmptyBoard (TETROMINOS ! 0) 9 0 = Inr False \<and>
   isValidMove createEmptyBoard (TETROMINOS ! 0) 4 (- 2) = Inr True"
proof -
  have wf: "wfBoard createEmptyBoard"
    by code_simp
  have out: "\<exists>(column, row)\<in>set (cellsAt (shape (TETROMINOS ! 0)) 9 0).
               column < 0 \<or> column \<ge> BOARD_WIDTH \<or> row \<ge> BOARD_HEIGHT"
    by code_simp
  have above: "\<forall>(column, row)\<in>set (cellsAt (shape (TETROMINOS ! 0)) 4 (- 2)).
               0 \<le> column \<and> column < BOARD_WIDTH \<and> row < 0"
    by code_simp
  from isValidMove_characterisation [OF wf, of "TETROMINOS ! 0" 9 0] out
  have "isValidMove createEmptyBoard (TETROMINOS ! 0) 9 0 = Inr False"
    by blast
  moreover from isValidMove_characterisation [OF wf, of "TETROMINOS ! 0" 4 "- 2"] above
  have "isValidMove createEmptyBoard (TETROMINOS ! 0) 4 (- 2) = Inr True"
    by blast
  ultimately show ?thesis
    using wf by simp
qed

subsection \<open>Cells of a shape, cells of the board\<close>

lemma set_truthyFrom:
  "set (truthyFrom es x0) = {x0 + k | k. k < length es \<and> truthy (es ! k)}"
proof (induction es arbitrary: x0)
  case Nil
  show ?case by simp
next
  case (Cons e es)
  have "{x0 + k | k. k < Suc (length es) \<and> truthy ((e # es) ! k)} =
        (if truthy e then {x0} else {}) \<union> {Suc x0 + k | k. k < length es \<and> truthy (es ! k)}"
    by (auto simp: less_Suc_eq_0_disj)
  then show ?case
    by (simp add: Cons.IH)
qed

lemma set_cellsFrom:
  "set (cellsFrom rs y0) =
     {(x, y0 + j) | x j. j < length rs \<and> x < length (rs ! j) \<and> truthy (rs ! j ! x)}"
proof (induction rs arbitrary: y0)
  case Nil
  show ?case by simp
next
  case (Cons r rs)
  have "{(x, y0 + j) | x j. j < Suc (length rs) \<and> x < length ((r # rs) ! j) \<and> truthy ((r # rs) ! j ! x)} =
        {(x, y0) | x. x < length r \<and> truthy (r ! x)} \<union>
        {(x, Suc y0 + j) | x j. j < length rs \<and> x < length (rs ! j) \<and> truthy (rs ! j ! x)}"
    by (auto simp: less_Suc_eq_0_disj)
  then show ?case
    by (auto simp: Cons.IH set_truthyFrom)
qed

lemma set_occupied_cellsFrom: "set (occupied sh) = set (cellsFrom sh 0)"
  by (auto simp: set_occupied set_cellsFrom)

lemma wfBoard_length: "wfBoard b \<Longrightarrow> length b = nat BOARD_HEIGHT"
  by (auto simp: wfBoard_def)

lemma wfBoard_nth:
  "wfBoard b \<Longrightarrow> i < length b \<Longrightarrow> length (b ! i) = nat BOARD_WIDTH"
  by (auto simp: wfBoard_def list_all_length)

lemma setCell_wf:
  assumes "wfBoard b" "0 \<le> r" "r < BOARD_HEIGHT" "0 \<le> c" "c < BOARD_WIDTH"
  shows "setCell b r c v = Inr (b[nat r := (b ! nat r)[nat c := v]])"
    and "wfBoard (b[nat r := (b ! nat r)[nat c := v]])"
proof -
  from assms have len: "int (length (b ! nat r)) = BOARD_WIDTH"
    by (simp add: wfBoard_row_length)
  with assms show "setCell b r c v = Inr (b[nat r := (b ! nat r)[nat c := v]])"
    by (simp add: setCell_def wfBoard_rowAt assign_def)
  from assms len show "wfBoard (b[nat r := (b ! nat r)[nat c := v]])"
    by (auto simp: wfBoard_def list_all_length nth_list_update)
qed

subsection \<open>Merging a piece into the board\<close>

lemma mergeRow_wf:
  assumes r: "0 \<le> r" "r < BOARD_HEIGHT"
  shows "wfBoard nb \<Longrightarrow>
         \<forall>x\<in>set (truthyFrom es x0). 0 \<le> px + int x \<and> px + int x < BOARD_WIDTH \<Longrightarrow>
         \<exists>nb'. mergeRow nb r px c es x0 = Inr nb' \<and> wfBoard nb' \<and>
           (\<forall>i<length nb. \<forall>j<length (nb ! i).
              nb' ! i ! j =
                (if int i = r \<and> (\<exists>x\<in>set (truthyFrom es x0). int j = px + int x)
                 then Str c else nb ! i ! j))"
proof (induction es arbitrary: nb x0)
  case Nil
  then show ?case by simp
next
  case (Cons e es)
  from Cons.prems(2) have tl:
    "\<forall>x\<in>set (truthyFrom es (Suc x0)). 0 \<le> px + int x \<and> px + int x < BOARD_WIDTH"
    by simp
  show ?case
  proof (cases "truthy e")
    case False
    with Cons.IH [OF Cons.prems(1) tl] show ?thesis
      by simp
  next
    case True
    with Cons.prems(2) have col: "0 \<le> px + int x0" "px + int x0 < BOARD_WIDTH"
      by simp_all
    define nb1 where "nb1 = nb[nat r := (nb ! nat r)[nat (px + int x0) := Str c]]"
    have set1: "setCell nb r (px + int x0) (Str c) = Inr nb1" and wf1: "wfBoard nb1"
      using setCell_wf [OF Cons.prems(1) r col] by (simp_all add: nb1_def)
    have len1: "length nb1 = length nb" "\<And>i. i < length nb \<Longrightarrow> length (nb1 ! i) = length (nb ! i)"
      using wf1 Cons.prems(1) by (simp_all add: wfBoard_length wfBoard_nth)
    have upd: "nb1 ! i ! j = (if int i = r \<and> int j = px + int x0 then Str c else nb ! i ! j)"
      if "i < length nb" "j < length (nb ! i)" for i j
    proof -
      have ir: "(nat r = i) = (int i = r)"
        using r by auto
      have jc: "(nat (px + int x0) = j) = (int j = px + int x0)"
        using col by auto
      have rl: "nat r < length nb"
        using r wfBoard_length [OF Cons.prems(1)] by simp
      then have cl: "nat (px + int x0) < length (nb ! nat r)"
        using col wfBoard_nth [OF Cons.prems(1), of "nat r"] by simp
      from that rl cl show ?thesis
        by (auto simp: nb1_def nth_list_update ir jc)
    qed
    from Cons.IH [OF wf1 tl] obtain nb' where
      run: "mergeRow nb1 r px c es (Suc x0) = Inr nb'" and wf': "wfBoard nb'" and
      cells: "\<And>i j. i < length nb1 \<Longrightarrow> j < length (nb1 ! i) \<Longrightarrow>
              nb' ! i ! j =
                (if int i = r \<and> (\<exists>x\<in>set (truthyFrom es (Suc x0)). int j = px + int x)
                 then Str c else nb1 ! i ! j)"
      by (elim exE conjE) simp
    have "nb' ! i ! j =
                (if int i = r \<and> (\<exists>x\<in>set (truthyFrom (e # es) x0). int j = px + int x)
                 then Str c else nb ! i ! j)"
      if "i < length nb" "j < length (nb ! i)" for i j
      using cells [of i j] upd [OF that] that len1 True by auto
    with True set1 run wf' show ?thesis
      by simp
  qed
qed

lemma mergeRow_none:
  "truthyFrom es x0 = [] \<Longrightarrow> mergeRow nb r px c es x0 = Inr nb"
  by (induction es arbitrary: x0) (auto split: if_splits)

lemma mergeRows_wf:
  "wfBoard nb \<Longrightarrow>
   \<forall>(x, y)\<in>set (cellsFrom rs y0).
      0 \<le> px + int x \<and> px + int x < BOARD_WIDTH \<and> 0 \<le> py + int y \<and> py + int y < BOARD_HEIGHT \<Longrightarrow>
   \<exists>nb'. mergeRows nb px py c rs y0 = Inr nb' \<and> wfBoard nb' \<and>
     (\<forall>i<length nb. \<forall>j<length (nb ! i).
        nb' ! i ! j =
          (if \<exists>(x, y)\<in>set (cellsFrom rs y0). int j = px + int x \<and> int i = py + int y
           then Str c else nb ! i ! j))"
proof (induction rs arbitrary: nb y0)
  case Nil
  then show ?case by simp
next
  case (Cons r rs)
  from Cons.prems(2) have tl:
    "\<forall>(x, y)\<in>set (cellsFrom rs (Suc y0)).
      0 \<le> px + int x \<and> px + int x < BOARD_WIDTH \<and> 0 \<le> py + int y \<and> py + int y < BOARD_HEIGHT"
    by simp
  show ?case
  proof (cases "truthyFrom r 0 = []")
    case True
    with Cons.IH [OF Cons.prems(1) tl] show ?thesis
      by (simp add: mergeRow_none)
  next
    case False
    then obtain x where "x \<in> set (truthyFrom r 0)"
      by (cases "truthyFrom r 0") auto
    with Cons.prems(2) have row: "0 \<le> py + int y0" "py + int y0 < BOARD_HEIGHT"
      by auto
    from Cons.prems(2) have cols:
      "\<forall>x\<in>set (truthyFrom r 0). 0 \<le> px + int x \<and> px + int x < BOARD_WIDTH"
      by auto
    from mergeRow_wf [OF row Cons.prems(1) cols, of c] obtain nb1 where
      run1: "mergeRow nb (py + int y0) px c r 0 = Inr nb1" and wf1: "wfBoard nb1" and
      cells1: "\<And>i j. i < length nb \<Longrightarrow> j < length (nb ! i) \<Longrightarrow>
              nb1 ! i ! j =
                (if int i = py + int y0 \<and> (\<exists>x\<in>set (truthyFrom r 0). int j = px + int x)
                 then Str c else nb ! i ! j)"
      by (elim exE conjE) simp
    have len1: "length nb1 = length nb" "\<And>i. i < length nb \<Longrightarrow> length (nb1 ! i) = length (nb ! i)"
      using wf1 Cons.prems(1) by (simp_all add: wfBoard_length wfBoard_nth)
    from Cons.IH [OF wf1 tl] obtain nb' where
      run: "mergeRows nb1 px py c rs (Suc y0) = Inr nb'" and wf': "wfBoard nb'" and
      cells: "\<And>i j. i < length nb1 \<Longrightarrow> j < length (nb1 ! i) \<Longrightarrow>
              nb' ! i ! j =
                (if \<exists>(x, y)\<in>set (cellsFrom rs (Suc y0)). int j = px + int x \<and> int i = py + int y
                 then Str c else nb1 ! i ! j)"
      by (elim exE conjE) simp
    have "nb' ! i ! j =
          (if \<exists>(x, y)\<in>set (cellsFrom (r # rs) y0). int j = px + int x \<and> int i = py + int y
           then Str c else nb ! i ! j)"
      if "i < length nb" "j < length (nb ! i)" for i j
    proof -
      define A where "A \<longleftrightarrow>
        (\<exists>(x, y)\<in>set (cellsFrom (r # rs) y0). int j = px + int x \<and> int i = py + int y)"
      define B where "B \<longleftrightarrow>
        int i = py + int y0 \<and> (\<exists>x\<in>set (truthyFrom r 0). int j = px + int x)"
      define C where "C \<longleftrightarrow>
        (\<exists>(x, y)\<in>set (cellsFrom rs (Suc y0)). int j = px + int x \<and> int i = py + int y)"
      have "A \<longleftrightarrow> B \<or> C"
        unfolding A_def B_def C_def by (simp add: bex_Un) blast
      moreover have "nb1 ! i ! j = (if B then Str c else nb ! i ! j)"
        unfolding B_def using cells1 [OF that] .
      moreover have "nb' ! i ! j = (if C then Str c else nb1 ! i ! j)"
        unfolding C_def using cells [of i j] that len1 by simp
      ultimately have "nb' ! i ! j = (if A then Str c else nb ! i ! j)"
        by simp
      then show ?thesis
        unfolding A_def .
    qed
    with run1 run wf' show ?thesis
      by simp
  qed
qed

lemma onBoard_iff:
  "onBoard sh pos \<longleftrightarrow>
     (\<forall>(x, y)\<in>set (cellsFrom sh 0).
        0 \<le> pos_x pos + int x \<and> pos_x pos + int x < BOARD_WIDTH \<and>
        0 \<le> pos_y pos + int y \<and> pos_y pos + int y < BOARD_HEIGHT)"
  by (auto simp: onBoard_def cellsAt_def list_all_iff set_occupied_cellsFrom)

lemma mergeRows_onBoard:
  assumes "wfBoard b" "onBoard sh pos"
  shows "\<exists>nb. mergeRows b (pos_x pos) (pos_y pos) c sh 0 = Inr nb \<and> wfBoard nb \<and>
     (\<forall>i<nat BOARD_HEIGHT. \<forall>j<nat BOARD_WIDTH.
        nb ! i ! j =
          (if (int j, int i) \<in> set (cellsAt sh (pos_x pos) (pos_y pos)) then Str c else b ! i ! j))"
proof -
  from assms(2) have
    "\<forall>(x, y)\<in>set (cellsFrom sh 0).
        0 \<le> pos_x pos + int x \<and> pos_x pos + int x < BOARD_WIDTH \<and>
        0 \<le> pos_y pos + int y \<and> pos_y pos + int y < BOARD_HEIGHT"
    by (simp add: onBoard_iff)
  from mergeRows_wf [OF assms(1) this, of c] obtain nb where
    run: "mergeRows b (pos_x pos) (pos_y pos) c sh 0 = Inr nb" and wf: "wfBoard nb" and
    cells: "\<And>i j. i < length b \<Longrightarrow> j < length (b ! i) \<Longrightarrow>
        nb ! i ! j =
          (if \<exists>(x, y)\<in>set (cellsFrom sh 0). int j = pos_x pos + int x \<and> int i = pos_y pos + int y
           then Str c else b ! i ! j)"
    by (elim exE conjE) simp
  have mem: "(int j, int i) \<in> set (cellsAt sh (pos_x pos) (pos_y pos)) \<longleftrightarrow>
        (\<exists>(x, y)\<in>set (cellsFrom sh 0). int j = pos_x pos + int x \<and> int i = pos_y pos + int y)" for i j
    by (auto simp: cellsAt_def set_occupied_cellsFrom)
  have "nb ! i ! j =
          (if (int j, int i) \<in> set (cellsAt sh (pos_x pos) (pos_y pos)) then Str c else b ! i ! j)"
    if "i < nat BOARD_HEIGHT" "j < nat BOARD_WIDTH" for i j
    using cells [of i j] that wfBoard_length [OF assms(1)] wfBoard_nth [OF assms(1), of i]
    by (simp add: mem)
  with run wf show ?thesis
    by blast
qed

subsection \<open>The rotation of a shape\<close>

lemma rectangular_nth:
  "rectangular sh m n \<Longrightarrow> i < m \<Longrightarrow> length (sh ! i) = n"
  by (auto simp: rectangular_def list_all_length)

lemma rectangularI:
  "0 < m \<Longrightarrow> 0 < n \<Longrightarrow> length sh = m \<Longrightarrow> (\<And>i. i < m \<Longrightarrow> length (sh ! i) = n) \<Longrightarrow>
   rectangular sh m n"
  by (auto simp: rectangular_def list_all_length)

lemma rotateShape_rect:
  assumes "rectangular sh m n"
  shows "rotateShape sh = Inr (map (\<lambda>i. rev (map (\<lambda>row. row ! i) sh)) [0..<n])"
proof -
  from assms obtain r0 rs where sh: "sh = r0 # rs"
    by (cases sh) (auto simp: rectangular_def)
  with assms have r0: "length r0 = n"
    by (simp add: rectangular_def)
  have "entryAt row i = row ! i" if "row \<in> set sh" "i < n" for row i
    using that assms by (auto simp: entryAt_def rectangular_def list_all_iff)
  then have "map (\<lambda>index. rev (map (\<lambda>row. entryAt row index) sh)) [0..<n] =
             map (\<lambda>i. rev (map (\<lambda>row. row ! i) sh)) [0..<n]"
    by simp
  with r0 show ?thesis
    unfolding rotateShape_def sh [symmetric] by (simp add: sh)
qed

lemma transposeReverse_rect:
  assumes "rectangular sh m n"
  shows "transposeReverse sh = map (\<lambda>i. rev (map (\<lambda>row. row ! i) sh)) [0..<n]"
proof -
  from assms have "sh = [] \<Longrightarrow> n = 0" and "\<And>i. i < length sh \<Longrightarrow> length (sh ! i) = n"
    by (auto simp: rectangular_def list_all_length)
  then have "transpose sh = map (\<lambda>i. map (\<lambda>j. sh ! j ! i) [0..<length sh]) [0..<n]"
    by (rule transpose_rectangle)
  moreover have "map (\<lambda>j. sh ! j ! i) [0..<length sh] = map (\<lambda>row. row ! i) sh" for i
    by (rule nth_equalityI) simp_all
  ultimately show ?thesis
    by (simp add: transposeReverse_def)
qed

lemma rotateShape_transposeReverse:
  "rectangular sh m n \<Longrightarrow> rotateShape sh = Inr (transposeReverse sh)"
  by (simp add: rotateShape_rect transposeReverse_rect)

lemma transposeReverse_nth:
  assumes "rectangular sh m n" "i < n" "j < m"
  shows "transposeReverse sh ! i ! j = sh ! (m - 1 - j) ! i"
proof -
  from assms have len: "length sh = m"
    by (simp add: rectangular_def)
  with assms show ?thesis
    by (simp add: transposeReverse_rect [OF assms(1)] rev_nth)
qed

lemma transposeReverse_rectangular:
  assumes "rectangular sh m n"
  shows "rectangular (transposeReverse sh) n m"
  using assms by (intro rectangularI) (auto simp: transposeReverse_rect [OF assms] rectangular_def)

lemma transposeReverse_four:
  assumes "rectangular sh m n"
  shows "transposeReverse (transposeReverse (transposeReverse (transposeReverse sh))) = sh"
proof -
  let ?s1 = "transposeReverse sh"
  let ?s2 = "transposeReverse ?s1"
  let ?s3 = "transposeReverse ?s2"
  let ?s4 = "transposeReverse ?s3"
  have r1: "rectangular ?s1 n m" using assms by (rule transposeReverse_rectangular)
  have r2: "rectangular ?s2 m n" using r1 by (rule transposeReverse_rectangular)
  have r3: "rectangular ?s3 n m" using r2 by (rule transposeReverse_rectangular)
  have r4: "rectangular ?s4 m n" using r3 by (rule transposeReverse_rectangular)
  have cell: "?s4 ! i ! j = sh ! i ! j" if "i < m" "j < n" for i j
  proof -
    have "?s4 ! i ! j = ?s3 ! (n - 1 - j) ! i"
      using r3 that by (simp add: transposeReverse_nth)
    also have "\<dots> = ?s2 ! (m - 1 - i) ! (n - 1 - j)"
      using r2 that by (simp add: transposeReverse_nth)
    also have "\<dots> = ?s1 ! (n - 1 - (n - 1 - j)) ! (m - 1 - i)"
      using r1 that by (simp add: transposeReverse_nth)
    also have "\<dots> = sh ! (m - 1 - (m - 1 - i)) ! (n - 1 - (n - 1 - j))"
      using assms that by (simp add: transposeReverse_nth)
    also have "\<dots> = sh ! i ! j"
      using that by simp
    finally show ?thesis .
  qed
  show ?thesis
  proof (rule nth_equalityI)
    show "length ?s4 = length sh"
      using r4 assms by (simp add: rectangular_def)
  next
    fix i assume "i < length ?s4"
    with r4 have i: "i < m" by (simp add: rectangular_def)
    show "?s4 ! i = sh ! i"
    proof (rule nth_equalityI)
      show "length (?s4 ! i) = length (sh ! i)"
        using i r4 assms by (simp add: rectangular_nth)
    next
      fix j assume "j < length (?s4 ! i)"
      with i r4 have "j < n" by (simp add: rectangular_nth)
      with i show "?s4 ! i ! j = sh ! i ! j" by (rule cell)
    qed
  qed
qed

subsection \<open>Validity, spawning and line clearing\<close>

lemma isValidMove_total:
  "wfBoard b \<Longrightarrow> \<exists>ok. isValidMove b p c r = Inr ok"
  by (simp add: isValidMove_wf)

lemma isValidMove_onBoard:
  assumes "wfBoard b" "isValidMove b p c r = Inr True" "0 \<le> r"
  shows "onBoard (shape p) \<lparr>pos_x = c, pos_y = r\<rparr>"
proof -
  from assms(1,2) have none: "\<forall>cell\<in>set (cellsAt (shape p) c r). \<not> rejects b cell"
    by (simp add: isValidMove_wf)
  have "0 \<le> row" if "(column, row) \<in> set (cellsAt (shape p) c r)" for column row
    using that assms(3) by (auto simp: cellsAt_def)
  with none show ?thesis
    by (fastforce simp: onBoard_def list_all_iff rejects_def)
qed

lemma isValidMove_free:
  assumes "wfBoard b" "isValidMove b p c r = Inr True"
    "(column, row) \<in> set (cellsAt (shape p) c r)" "0 \<le> row"
  shows "b ! nat row ! nat column = Zero"
proof -
  from assms(1,2) have "\<forall>cell\<in>set (cellsAt (shape p) c r). \<not> rejects b cell"
    by (simp add: isValidMove_wf)
  with assms(3) have "\<not> rejects b (column, row)"
    by blast
  with assms(4) show ?thesis
    by (simp add: rejects_def)
qed

lemma TETROMINOS_spawn:
  assumes "i < length TETROMINOS"
  shows "isRect (shape (TETROMINOS ! i))"
    and "onBoard (shape (TETROMINOS ! i)) \<lparr>pos_x = BOARD_WIDTH div 2 - 1, pos_y = 0\<rparr>"
proof -
  have "list_all (\<lambda>p. isRect (shape p) \<and>
          onBoard (shape p) \<lparr>pos_x = BOARD_WIDTH div 2 - 1, pos_y = 0\<rparr>) TETROMINOS"
    by code_simp
  with assms show "isRect (shape (TETROMINOS ! i))"
    and "onBoard (shape (TETROMINOS ! i)) \<lparr>pos_x = BOARD_WIDTH div 2 - 1, pos_y = 0\<rparr>"
    by (simp_all add: list_all_length)
qed

lemma isRect_rotate:
  assumes "isRect sh"
  shows "rotateShape sh = Inr (transposeReverse sh)" and "isRect (transposeReverse sh)"
proof -
  let ?m = "length sh" and ?n = "length (hd sh)"
  from assms have rect: "rectangular sh ?m ?n"
    by (simp add: isRect_def)
  then show "rotateShape sh = Inr (transposeReverse sh)"
    by (rule rotateShape_transposeReverse)
  from rect have r': "rectangular (transposeReverse sh) ?n ?m"
    by (rule transposeReverse_rectangular)
  then have ne: "transposeReverse sh \<noteq> []" and len: "length (transposeReverse sh) = ?n"
    by (auto simp: rectangular_def)
  from r' have "length (transposeReverse sh ! 0) = ?m"
    by (rule rectangular_nth) (use r' in \<open>simp add: rectangular_def\<close>)
  with ne have "length (hd (transposeReverse sh)) = ?m"
    by (simp add: hd_conv_nth)
  note len this
  with r' show "isRect (transposeReverse sh)"
    by (simp add: isRect_def)
qed

lemma unshiftRows_eq:
  "int (length nb) \<le> BOARD_HEIGHT \<Longrightarrow>
   unshiftRows nb = replicate (nat BOARD_HEIGHT - length nb) emptyRow @ nb"
proof (induction nb rule: unshiftRows.induct)
  case (1 nb)
  show ?case
  proof (cases "int (length nb) < BOARD_HEIGHT")
    case True
    then have "unshiftRows nb = unshiftRows (emptyRow # nb)"
      by (subst unshiftRows.simps) simp
    also from True have "\<dots> = replicate (nat BOARD_HEIGHT - length (emptyRow # nb)) emptyRow @ emptyRow # nb"
      by (intro "1.IH") simp_all
    also from True have "\<dots> = replicate (nat BOARD_HEIGHT - length nb) emptyRow @ nb"
      by (simp add: replicate_app_Cons_same Suc_diff_Suc [symmetric] del: replicate_Suc)
         (metis Suc_diff_Suc nat_less_iff replicate_Suc zless_nat_conj of_nat_less_iff nat_int)
    finally show ?thesis .
  next
    case False
    with "1.prems" show ?thesis
      by (subst unshiftRows.simps) simp
  qed
qed

lemma hasEmpty_fullRow: "hasEmpty row \<longleftrightarrow> \<not> fullRow row"
  by (auto simp: hasEmpty_def fullRow_def list_ex_iff list_all_iff)

lemma checkLines_wf:
  assumes "wfBoard (board s)"
  shows "checkLines s t =
     t\<lparr>score := score s + 100 * int (length (filter fullRow (board s))),
       board := replicate (length (filter fullRow (board s))) emptyRow @
                filter (\<lambda>row. \<not> fullRow row) (board s)\<rparr>"
proof -
  let ?keep = "filter (\<lambda>row. \<not> fullRow row) (board s)"
  have he: "filter hasEmpty (board s) = ?keep"
    by (simp add: hasEmpty_fullRow [abs_def])
  have sum: "length (filter fullRow (board s)) + length ?keep = length (board s)"
    by (rule sum_length_filter_compl)
  with assms have cleared: "BOARD_HEIGHT - int (length ?keep) = int (length (filter fullRow (board s)))"
    by (simp add: wfBoard_def)
  from sum assms have "int (length ?keep) \<le> BOARD_HEIGHT"
    by (simp add: wfBoard_def)
  then have "unshiftRows ?keep = replicate (nat BOARD_HEIGHT - length ?keep) emptyRow @ ?keep"
    by (rule unshiftRows_eq)
  moreover from cleared have "nat BOARD_HEIGHT - length ?keep = length (filter fullRow (board s))"
    by linarith
  ultimately have pad: "unshiftRows ?keep = replicate (length (filter fullRow (board s))) emptyRow @ ?keep"
    by simp
  have "checkLines s t =
          t\<lparr>score := score s + (BOARD_HEIGHT - int (length ?keep)) * 100, board := unshiftRows ?keep\<rparr>"
    by (simp add: checkLines_def he Let_def)
  also have "\<dots> = t\<lparr>score := score s + 100 * int (length (filter fullRow (board s))),
       board := replicate (length (filter fullRow (board s))) emptyRow @ ?keep\<rparr>"
    unfolding cleared pad by simp
  finally show ?thesis .
qed

lemma checkLines_wfBoard:
  assumes "wfBoard (board s)"
  shows "wfBoard (board (checkLines s t))"
proof -
  have "length (filter fullRow (board s)) + length (filter (\<lambda>row. \<not> fullRow row) (board s)) = length (board s)"
    by (rule sum_length_filter_compl)
  moreover have "int (length emptyRow) = BOARD_WIDTH"
    by (simp add: emptyRow_def BOARD_WIDTH_def)
  ultimately show ?thesis
    using assms by (auto simp: checkLines_wf [OF assms] wfBoard_def list_all_iff)
qed

subsection \<open>Line clearing and the score\<close>

text \<open>
  Claim C3. On a board of \<open>BOARD_HEIGHT\<close> rows, \<open>checkLines\<close> removes exactly the rows in
  which no cell is 0, keeps the other rows in their order, puts one empty row on top for
  each row removed, so that the board has its dimensions again, and adds to the score 100
  times the number of rows removed. With exactly two full rows it adds 200; with none it
  changes neither board nor score.
\<close>

theorem checkLines_clears_full_rows:
  assumes "wfBoard (board s)"
  shows "checkLines s t =
           t\<lparr>score := score s + 100 * int (length (filter fullRow (board s))),
             board := replicate (length (filter fullRow (board s))) emptyRow @
                      filter (\<lambda>row. \<not> fullRow row) (board s)\<rparr> \<and>
         wfBoard (board (checkLines s t)) \<and>
         (length (filter fullRow (board s)) = 2 \<longrightarrow> score (checkLines s s) = score s + 200) \<and>
         (filter fullRow (board s) = [] \<longrightarrow> checkLines s s = s)"
proof -
  have "filter (\<lambda>row. \<not> fullRow row) (board s) = board s" if "filter fullRow (board s) = []"
    using that by (simp add: filter_empty_conv)
  then show ?thesis
    using checkLines_wfBoard [OF assms, of t]
    by (auto simp: checkLines_wf [OF assms])
qed

text \<open>
  A board with two full rows loses them, keeps its third row from the bottom, and the
  score grows by 200; the empty board and its score are left as they are.
\<close>

theorem checkLines_clears_full_rows_witness:
  "wfBoard twoFullRows \<and>
   length (filter fullRow twoFullRows) = 2 \<and>
   score (checkLines (playing twoFullRows (TETROMINOS ! 0) 4 0) (playing twoFullRows (TETROMINOS ! 0) 4 0)) = 200 \<and>
   board (checkLines (playing twoFullRows (TETROMINOS ! 0) 4 0) (playing twoFullRows (TETROMINOS ! 0) 4 0)) =
     replicate 19 emptyRow @ [Str ''#aa00ff'' # replicate 9 Zero] \<and>
   wfBoard createEmptyBoard \<and> filter fullRow createEmptyBoard = [] \<and>
   checkLines mountedState mountedState = mountedState"
proof -
  let ?s = "playing twoFullRows (TETROMINOS ! 0) 4 0"
  have wf: "wfBoard (board ?s)"
    unfolding playing_def by code_simp
  have two: "length (filter fullRow (board ?s)) = 2"
    unfolding playing_def by code_simp
  have rest: "filter (\<lambda>row. \<not> fullRow row) (board ?s) =
              replicate 17 emptyRow @ [Str ''#aa00ff'' # replicate 9 Zero]"
    unfolding playing_def by code_simp
  have "replicate 2 emptyRow @ replicate 17 emptyRow @ [Str ''#aa00ff'' # replicate 9 Zero] =
        replicate 19 emptyRow @ [Str ''#aa00ff'' # replicate 9 Zero]"
    by code_simp
  with checkLines_clears_full_rows [OF wf, of ?s] two rest wf have first:
    "wfBoard twoFullRows \<and>
     length (filter fullRow twoFullRows) = 2 \<and>
     score (checkLines ?s ?s) = 200 \<and>
     board (checkLines ?s ?s) = replicate 19 emptyRow @ [Str ''#aa00ff'' # replicate 9 Zero]"
    by (simp add: playing_def)
  have wf0: "wfBoard createEmptyBoard" and none: "filter fullRow createEmptyBoard = []"
    by code_simp+
  then have "wfBoard (board mountedState)" "filter fullRow (board mountedState) = []"
    by (simp_all add: mountedState_def playing_def)
  with checkLines_clears_full_rows [of mountedState mountedState]
  have "checkLines mountedState mountedState = mountedState"
    by blast
  with first wf0 none show ?thesis
    by blast
qed

subsection \<open>Moving and rotating the piece\<close>

lemma moveHorizontally_cases:
  assumes "currentPiece s = Some p" "wfBoard (board s)"
  shows "(isValidMove (board s) p (pos_x (position s) + d) (pos_y (position s)) = Inr True \<and>
          moveHorizontally d s s =
            Inr (s\<lparr>position := (position s)\<lparr>pos_x := pos_x (position s) + d\<rparr>\<rparr>)) \<or>
         (isValidMove (board s) p (pos_x (position s) + d) (pos_y (position s)) = Inr False \<and>
          moveHorizontally d s s = Inr s)"
proof -
  from isValidMove_total [OF assms(2)] obtain ok where
    "isValidMove (board s) p (pos_x (position s) + d) (pos_y (position s)) = Inr ok"
    by blast
  with assms(1) show ?thesis
    by (cases ok) (simp_all add: moveHorizontally_def)
qed

text \<open>
  Claim C6. In a state with a current piece, \<open>moveHorizontally d\<close> adds \<open>d\<close> to the column
  of the origin if \<open>isValidMove\<close> holds for the piece at that column and the same row, and
  changes nothing else; otherwise it returns the state as it was: board, piece,
  position, score and game-over flag. It returns a state in both cases, never an error.
  This holds for every \<open>d\<close>, so for -1 and 1.
\<close>

theorem moveHorizontally_move_or_noop:
  assumes "currentPiece s = Some p" "wfBoard (board s)"
  shows "(isValidMove (board s) p (pos_x (position s) + d) (pos_y (position s)) = Inr True \<and>
          moveHorizontally d s s =
            Inr (s\<lparr>position := (position s)\<lparr>pos_x := pos_x (position s) + d\<rparr>\<rparr>)) \<or>
         (isValidMove (board s) p (pos_x (position s) + d) (pos_y (position s)) = Inr False \<and>
          moveHorizontally d s s = Inr s)"
  using assms by (rule moveHorizontally_cases)

text \<open>The O piece at the left wall of the empty board: a step left is rejected, a step right is taken.\<close>

theorem moveHorizontally_move_or_noop_witness:
  "currentPiece (playing createEmptyBoard (TETROMINOS ! 0) 0 0) = Some (TETROMINOS ! 0) \<and>
   wfBoard (board (playing createEmptyBoard (TETROMINOS ! 0) 0 0)) \<and>
   moveHorizontally (- 1) (playing createEmptyBoard (TETROMINOS ! 0) 0 0)
       (playing createEmptyBoard (TETROMINOS ! 0) 0 0) =
     Inr (playing createEmptyBoard (TETROMINOS ! 0) 0 0) \<and>
   moveHorizontally 1 (playing createEmptyBoard (TETROMINOS ! 0) 0 0)
       (playing createEmptyBoard (TETROMINOS ! 0) 0 0) =
     Inr (playing createEmptyBoard (TETROMINOS ! 0) 1 0)"
proof -
  let ?s = "playing createEmptyBoard (TETROMINOS ! 0) 0 0"
  have p: "currentPiece ?s = Some (TETROMINOS ! 0)"
    by (simp add: playing_def)
  have wf: "wfBoard (board ?s)"
    unfolding playing_def by code_simp
  have left: "isValidMove (board ?s) (TETROMINOS ! 0) (pos_x (position ?s) + (- 1)) (pos_y (position ?s)) \<noteq> Inr True"
    unfolding playing_def by code_simp
  have right: "isValidMove (board ?s) (TETROMINOS ! 0) (pos_x (position ?s) + 1) (pos_y (position ?s)) \<noteq> Inr False"
    unfolding playing_def by code_simp
  from moveHorizontally_move_or_noop [OF p wf, of "- 1"] left
  have "moveHorizontally (- 1) ?s ?s = Inr ?s"
    by blast
  moreover from moveHorizontally_move_or_noop [OF p wf, of 1] right
  have "moveHorizontally 1 ?s ?s = Inr (?s\<lparr>position := (position ?s)\<lparr>pos_x := pos_x (position ?s) + 1\<rparr>\<rparr>)"
    by blast
  ultimately show ?thesis
    using p wf by (simp add: playing_def)
qed

text \<open>
  The updates that \<open>moveDown\<close> queues, taken alone: the origin one row down if
  \<open>isValidMove\<close> holds there; otherwise, the piece lying on the board, the board with
  the piece's color under its occupied cells and the piece drawn next at column
  \<open>BOARD_WIDTH div 2 - 1\<close>, row 0. What the next state is depends on what the handler
  queues after it.
\<close>

lemma moveDown_cases:
  assumes "currentPiece s = Some p" "wfBoard (board s)"
  shows "(isValidMove (board s) p (pos_x (position s)) (pos_y (position s) + 1) = Inr True \<and>
          moveDown i s s =
            Inr (s\<lparr>position := (position s)\<lparr>pos_y := pos_y (position s) + 1\<rparr>\<rparr>)) \<or>
         (isValidMove (board s) p (pos_x (position s)) (pos_y (position s) + 1) = Inr False \<and>
          (onBoard (shape p) (position s) \<longrightarrow>
            (\<exists>newBoard.
               moveDown i s s =
                 Inr (s\<lparr>board := newBoard, currentPiece := Some (TETROMINOS ! i),
                        position := \<lparr>pos_x = BOARD_WIDTH div 2 - 1, pos_y = 0\<rparr>\<rparr>) \<and>
               wfBoard newBoard \<and>
               (\<forall>r<nat BOARD_HEIGHT. \<forall>c<nat BOARD_WIDTH.
                  newBoard ! r ! c =
                    (if (int c, int r) \<in> set (cellsAt (shape p) (pos_x (position s)) (pos_y (position s)))
                     then Str (color p) else board s ! r ! c)))))"
proof -
  from isValidMove_total [OF assms(2)] obtain ok where
    ok: "isValidMove (board s) p (pos_x (position s)) (pos_y (position s) + 1) = Inr ok"
    by blast
  show ?thesis
  proof (cases ok)
    case True
    with ok assms(1) show ?thesis
      by (simp add: moveDown_def)
  next
    case False
    have "\<exists>newBoard.
               moveDown i s s =
                 Inr (s\<lparr>board := newBoard, currentPiece := Some (TETROMINOS ! i),
                        position := \<lparr>pos_x = BOARD_WIDTH div 2 - 1, pos_y = 0\<rparr>\<rparr>) \<and>
               wfBoard newBoard \<and>
               (\<forall>r<nat BOARD_HEIGHT. \<forall>c<nat BOARD_WIDTH.
                  newBoard ! r ! c =
                    (if (int c, int r) \<in> set (cellsAt (shape p) (pos_x (position s)) (pos_y (position s)))
                     then Str (color p) else board s ! r ! c))"
      if "onBoard (shape p) (position s)"
    proof -
      from mergeRows_onBoard [OF assms(2) that, of "color p"] obtain nb where
        run: "mergeRows (board s) (pos_x (position s)) (pos_y (position s)) (color p) (shape p) 0 = Inr nb"
        and rest: "wfBoard nb"
          "\<forall>r<nat BOARD_HEIGHT. \<forall>c<nat BOARD_WIDTH.
             nb ! r ! c =
               (if (int c, int r) \<in> set (cellsAt (shape p) (pos_x (position s)) (pos_y (position s)))
                then Str (color p) else board s ! r ! c)"
        by blast
      from run ok False assms(1) have
        "moveDown i s s =
           Inr (s\<lparr>board := nb, currentPiece := Some (TETROMINOS ! i),
                  position := \<lparr>pos_x = BOARD_WIDTH div 2 - 1, pos_y = 0\<rparr>\<rparr>)"
        by (simp add: moveDown_def mergePieceToBoard_def spawnNewPiece_def)
      with rest show ?thesis
        by blast
    qed
    with ok False show ?thesis
      by simp
  qed
qed

lemma rotate_cases:
  assumes "currentPiece s = Some p" "wfBoard (board s)" "rectangular (shape p) m n"
  shows "rotateShape (shape p) = Inr (transposeReverse (shape p)) \<and>
         rectangular (transposeReverse (shape p)) n m \<and>
         (\<forall>i<n. \<forall>j<m. transposeReverse (shape p) ! i ! j = shape p ! (m - 1 - j) ! i) \<and>
         ((isValidMove (board s) (p\<lparr>shape := transposeReverse (shape p)\<rparr>)
              (pos_x (position s)) (pos_y (position s)) = Inr True \<and>
           rotate_piece s s = Inr (s\<lparr>currentPiece := Some (p\<lparr>shape := transposeReverse (shape p)\<rparr>)\<rparr>)) \<or>
          (isValidMove (board s) (p\<lparr>shape := transposeReverse (shape p)\<rparr>)
              (pos_x (position s)) (pos_y (position s)) = Inr False \<and>
           rotate_piece s s = Inr s))"
proof -
  have rot: "rotateShape (shape p) = Inr (transposeReverse (shape p))"
    using assms(3) by (rule rotateShape_transposeReverse)
  from isValidMove_total [OF assms(2)] obtain ok where
    ok: "isValidMove (board s) (p\<lparr>shape := transposeReverse (shape p)\<rparr>)
              (pos_x (position s)) (pos_y (position s)) = Inr ok"
    by blast
  with assms(1) rot have
    "(ok \<and> rotate_piece s s = Inr (s\<lparr>currentPiece := Some (p\<lparr>shape := transposeReverse (shape p)\<rparr>)\<rparr>)) \<or>
     (\<not> ok \<and> rotate_piece s s = Inr s)"
    by (cases ok) (simp_all add: rotate_piece_def)
  with ok rot transposeReverse_rectangular [OF assms(3)] transposeReverse_nth [OF assms(3)]
  show ?thesis
    by auto
qed

text \<open>
  Claim C4. In a state with a current piece whose shape is a matrix of \<open>m\<close> rows and \<open>n\<close>
  columns, the candidate shape that \<open>rotate\<close> computes is the transposed matrix with each
  row reversed: its entry \<open>(i, j)\<close> is entry \<open>(m - 1 - j, i)\<close> of the shape, a quarter turn
  inside the bounding box, with no shift of the origin. \<open>rotate\<close> makes the candidate the
  shape of the current piece if \<open>isValidMove\<close> holds for it at the unchanged origin and
  changes nothing else; if not, it returns the state as it was.
\<close>

theorem rotate_candidate_or_noop:
  assumes "currentPiece s = Some p" "wfBoard (board s)" "rectangular (shape p) m n"
  shows "rotateShape (shape p) = Inr (transposeReverse (shape p)) \<and>
         rectangular (transposeReverse (shape p)) n m \<and>
         (\<forall>i<n. \<forall>j<m. transposeReverse (shape p) ! i ! j = shape p ! (m - 1 - j) ! i) \<and>
         ((isValidMove (board s) (p\<lparr>shape := transposeReverse (shape p)\<rparr>)
              (pos_x (position s)) (pos_y (position s)) = Inr True \<and>
           rotate_piece s s = Inr (s\<lparr>currentPiece := Some (p\<lparr>shape := transposeReverse (shape p)\<rparr>)\<rparr>)) \<or>
          (isValidMove (board s) (p\<lparr>shape := transposeReverse (shape p)\<rparr>)
              (pos_x (position s)) (pos_y (position s)) = Inr False \<and>
           rotate_piece s s = Inr s))"
  using assms by (rule rotate_cases)

text \<open>
  On the empty board the T piece at the top is turned; the I piece at row 18 is not,
  since upright it would reach below the floor.
\<close>

theorem rotate_candidate_or_noop_witness:
  "rectangular (shape (TETROMINOS ! 2)) 2 3 \<and> rectangular (shape (TETROMINOS ! 1)) 1 4 \<and>
   wfBoard createEmptyBoard \<and>
   rotate_piece (playing createEmptyBoard (TETROMINOS ! 2) 4 0) (playing createEmptyBoard (TETROMINOS ! 2) 4 0) =
     Inr (playing createEmptyBoard (piece [[0, 1], [1, 1], [0, 1]] ''#aa00ff'') 4 0) \<and>
   rotate_piece (playing createEmptyBoard (TETROMINOS ! 1) 4 18) (playing createEmptyBoard (TETROMINOS ! 1) 4 18) =
     Inr (playing createEmptyBoard (TETROMINOS ! 1) 4 18)"
proof -
  let ?t = "playing createEmptyBoard (TETROMINOS ! 2) 4 0"
  let ?i = "playing createEmptyBoard (TETROMINOS ! 1) 4 18"
  have p: "currentPiece ?t = Some (TETROMINOS ! 2)" "currentPiece ?i = Some (TETROMINOS ! 1)"
    by (simp_all add: playing_def)
  have wf: "wfBoard createEmptyBoard"
    by code_simp
  then have wfs: "wfBoard (board ?t)" "wfBoard (board ?i)"
    by (simp_all add: playing_def)
  have rect: "rectangular (shape (TETROMINOS ! 2)) 2 3" "rectangular (shape (TETROMINOS ! 1)) 1 4"
    by code_simp+
  have turned: "(TETROMINOS ! 2)\<lparr>shape := transposeReverse (shape (TETROMINOS ! 2))\<rparr> =
                piece [[0, 1], [1, 1], [0, 1]] ''#aa00ff''"
    by code_simp
  have fits: "isValidMove (board ?t) ((TETROMINOS ! 2)\<lparr>shape := transposeReverse (shape (TETROMINOS ! 2))\<rparr>)
                (pos_x (position ?t)) (pos_y (position ?t)) \<noteq> Inr False"
    unfolding playing_def by code_simp
  have blocked: "isValidMove (board ?i) ((TETROMINOS ! 1)\<lparr>shape := transposeReverse (shape (TETROMINOS ! 1))\<rparr>)
                (pos_x (position ?i)) (pos_y (position ?i)) \<noteq> Inr True"
    unfolding playing_def by code_simp
  from rotate_candidate_or_noop [OF p(1) wfs(1) rect(1)] fits
  have "rotate_piece ?t ?t = Inr (?t\<lparr>currentPiece := Some ((TETROMINOS ! 2)\<lparr>shape := transposeReverse (shape (TETROMINOS ! 2))\<rparr>)\<rparr>)"
    by blast
  then have "rotate_piece ?t ?t = Inr (playing createEmptyBoard (piece [[0, 1], [1, 1], [0, 1]] ''#aa00ff'') 4 0)"
    unfolding turned by (simp add: playing_def)
  moreover from rotate_candidate_or_noop [OF p(2) wfs(2) rect(2)] blocked
  have "rotate_piece ?i ?i = Inr ?i"
    by blast
  ultimately show ?thesis
    using rect wf by blast
qed

subsection \<open>Four rotations\<close>

lemma rotate_accepted:
  assumes "currentPiece s = Some p" "rectangular (shape p) m n" "accepted s"
  shows "rotate_piece s s = Inr (s\<lparr>currentPiece := Some (p\<lparr>shape := transposeReverse (shape p)\<rparr>)\<rparr>)"
proof -
  have rot: "rotateShape (shape p) = Inr (transposeReverse (shape p))"
    using assms(2) by (rule rotateShape_transposeReverse)
  with assms(1,3) have
    "isValidMove (board s) (p\<lparr>shape := transposeReverse (shape p)\<rparr>)
       (pos_x (position s)) (pos_y (position s)) = Inr True"
    by (simp add: accepted_def)
  with assms(1) rot show ?thesis
    by (simp add: rotate_piece_def)
qed

text \<open>
  Claim C8. For a shape that is a matrix of \<open>m\<close> rows and \<open>n\<close> columns, four applications
  of the rotation of \<open>rotate\<close> succeed and give the shape back. In the engine, four calls
  of \<open>rotate\<close>, each on the state the one before returned and each accepted by
  \<open>isValidMove\<close>, return the state they started from.
\<close>

theorem rotateShape_four_times:
  assumes "rectangular sh m n"
  shows "(\<exists>sh1 sh2 sh3.
            rotateShape sh = Inr sh1 \<and> rotateShape sh1 = Inr sh2 \<and>
            rotateShape sh2 = Inr sh3 \<and> rotateShape sh3 = Inr sh) \<and>
         (currentPiece s = Some p \<and> shape p = sh \<and>
          accepted s \<and> rotate_piece s s = Inr s1 \<and>
          accepted s1 \<and> rotate_piece s1 s1 = Inr s2 \<and>
          accepted s2 \<and> rotate_piece s2 s2 = Inr s3 \<and>
          accepted s3 \<and> rotate_piece s3 s3 = Inr s4 \<longrightarrow>
          s4 = s)"
proof -
  let ?sh1 = "transposeReverse sh"
  let ?sh2 = "transposeReverse ?sh1"
  let ?sh3 = "transposeReverse ?sh2"
  have r1: "rectangular ?sh1 n m" using assms by (rule transposeReverse_rectangular)
  have r2: "rectangular ?sh2 m n" using r1 by (rule transposeReverse_rectangular)
  have r3: "rectangular ?sh3 n m" using r2 by (rule transposeReverse_rectangular)
  have four: "transposeReverse ?sh3 = sh"
    using assms by (rule transposeReverse_four)
  have shapes: "rotateShape sh = Inr ?sh1" "rotateShape ?sh1 = Inr ?sh2"
    "rotateShape ?sh2 = Inr ?sh3" "rotateShape ?sh3 = Inr sh"
    using assms r1 r2 r3 four by (simp_all add: rotateShape_transposeReverse)
  have engine: "s4 = s"
    if p: "currentPiece s = Some p" "shape p = sh"
      and a: "accepted s" "accepted s1" "accepted s2" "accepted s3"
      and r: "rotate_piece s s = Inr s1" "rotate_piece s1 s1 = Inr s2" "rotate_piece s2 s2 = Inr s3" "rotate_piece s3 s3 = Inr s4"
  proof -
    from rotate_accepted [OF p(1) _ a(1)] assms p(2) r(1)
    have s1: "s1 = s\<lparr>currentPiece := Some (p\<lparr>shape := ?sh1\<rparr>)\<rparr>"
      by simp
    then have p1: "currentPiece s1 = Some (p\<lparr>shape := ?sh1\<rparr>)"
      by simp
    from rotate_accepted [OF p1 _ a(2)] r1 r(2) s1
    have s2: "s2 = s\<lparr>currentPiece := Some (p\<lparr>shape := ?sh2\<rparr>)\<rparr>"
      by simp
    then have p2: "currentPiece s2 = Some (p\<lparr>shape := ?sh2\<rparr>)"
      by simp
    from rotate_accepted [OF p2 _ a(3)] r2 r(3) s2
    have s3: "s3 = s\<lparr>currentPiece := Some (p\<lparr>shape := ?sh3\<rparr>)\<rparr>"
      by simp
    then have p3: "currentPiece s3 = Some (p\<lparr>shape := ?sh3\<rparr>)"
      by simp
    from rotate_accepted [OF p3 _ a(4)] r3 r(4) s3
    have "s4 = s\<lparr>currentPiece := Some (p\<lparr>shape := transposeReverse ?sh3\<rparr>)\<rparr>"
      by simp
    with four p show ?thesis
      by simp
  qed
  from shapes engine show ?thesis
    by blast
qed

text \<open>The T piece in the middle of the empty board, turned four times.\<close>

theorem rotateShape_four_times_witness:
  "rectangular (shape (TETROMINOS ! 2)) 2 3 \<and>
   accepted (playing createEmptyBoard (TETROMINOS ! 2) 4 5) \<and>
   rotate_piece (playing createEmptyBoard (TETROMINOS ! 2) 4 5) (playing createEmptyBoard (TETROMINOS ! 2) 4 5) =
     Inr (playing createEmptyBoard (piece [[0, 1], [1, 1], [0, 1]] ''#aa00ff'') 4 5) \<and>
   accepted (playing createEmptyBoard (piece [[0, 1], [1, 1], [0, 1]] ''#aa00ff'') 4 5) \<and>
   accepted (playing createEmptyBoard (piece [[0, 1, 0], [1, 1, 1]] ''#aa00ff'') 4 5) \<and>
   accepted (playing createEmptyBoard (piece [[1, 0], [1, 1], [1, 0]] ''#aa00ff'') 4 5) \<and>
   rotate_piece (playing createEmptyBoard (piece [[1, 0], [1, 1], [1, 0]] ''#aa00ff'') 4 5)
       (playing createEmptyBoard (piece [[1, 0], [1, 1], [1, 0]] ''#aa00ff'') 4 5) =
     Inr (playing createEmptyBoard (TETROMINOS ! 2) 4 5)"
proof -
  let ?s = "playing createEmptyBoard (TETROMINOS ! 2) 4 5"
  let ?s1 = "playing createEmptyBoard (piece [[0, 1], [1, 1], [0, 1]] ''#aa00ff'') 4 5"
  let ?s2 = "playing createEmptyBoard (piece [[0, 1, 0], [1, 1, 1]] ''#aa00ff'') 4 5"
  let ?s3 = "playing createEmptyBoard (piece [[1, 0], [1, 1], [1, 0]] ''#aa00ff'') 4 5"
  have rect: "rectangular (shape (TETROMINOS ! 2)) 2 3"
    by code_simp
  have p: "currentPiece ?s = Some (TETROMINOS ! 2)"
    by (simp add: playing_def)
  have a: "accepted ?s" "accepted ?s1" "accepted ?s2" "accepted ?s3"
    by code_simp+
  have r: "rotate_piece ?s ?s = Inr ?s1" "rotate_piece ?s1 ?s1 = Inr ?s2" "rotate_piece ?s2 ?s2 = Inr ?s3"
    by code_simp+
  have "\<not> isl (rotate_piece ?s3 ?s3)"
    by code_simp
  then obtain s4 where r4: "rotate_piece ?s3 ?s3 = Inr s4"
    by (cases "rotate_piece ?s3 ?s3") simp_all
  from rotateShape_four_times [OF rect, of ?s "TETROMINOS ! 2" ?s1 ?s2 ?s3 s4] p a r r4
  have "s4 = ?s"
    by blast
  with rect a r(1) r4 show ?thesis
    by blast
qed

subsection \<open>What every step preserves\<close>

lemma keepsOccupied_refl: "keepsOccupied b b"
  by (simp add: keepsOccupied_def)

lemma invariant_settled: "invariant s \<Longrightarrow> settled s"
  by (simp add: invariant_def)

lemma point_eq: "pt\<lparr>pos_x := a\<rparr> = \<lparr>pos_x = a, pos_y = pos_y pt\<rparr>" "pt\<lparr>pos_y := b\<rparr> = \<lparr>pos_x = pos_x pt, pos_y = b\<rparr>"
  by simp_all

lemma moveHorizontally_settled:
  assumes "invariant s"
  shows "\<exists>t. moveHorizontally d s s = Inr t \<and> settled t \<and> board t = board s \<and>
             score t = score s \<and> gameOver t = gameOver s"
proof (cases "currentPiece s")
  case None
  with assms show ?thesis
    by (simp add: moveHorizontally_def invariant_settled)
next
  case (Some p)
  from assms have st: "settled s" by (rule invariant_settled)
  then have wf: "wfBoard (board s)" and y: "0 \<le> pos_y (position s)"
    by (simp_all add: settled_def)
  from moveHorizontally_cases [OF Some wf, of d] show ?thesis
  proof
    assume ok: "isValidMove (board s) p (pos_x (position s) + d) (pos_y (position s)) = Inr True \<and>
      moveHorizontally d s s = Inr (s\<lparr>position := (position s)\<lparr>pos_x := pos_x (position s) + d\<rparr>\<rparr>)"
    with wf y have "onBoard (shape p) \<lparr>pos_x = pos_x (position s) + d, pos_y = pos_y (position s)\<rparr>"
      by (intro isValidMove_onBoard [of "board s"]) simp_all
    with ok st Some show ?thesis
      by (simp add: settled_def point_eq)
  next
    assume "isValidMove (board s) p (pos_x (position s) + d) (pos_y (position s)) = Inr False \<and>
      moveHorizontally d s s = Inr s"
    with st show ?thesis by simp
  qed
qed

lemma rotate_settled:
  assumes "invariant s"
  shows "\<exists>t. rotate_piece s s = Inr t \<and> settled t \<and> board t = board s \<and>
             score t = score s \<and> gameOver t = gameOver s"
proof (cases "currentPiece s")
  case None
  with assms show ?thesis
    by (simp add: rotate_piece_def invariant_settled)
next
  case (Some p)
  from assms have st: "settled s" by (rule invariant_settled)
  then have wf: "wfBoard (board s)" and y: "0 \<le> pos_y (position s)"
    by (simp_all add: settled_def)
  from st Some have rect: "isRect (shape p)"
    by (simp add: settled_def)
  let ?q = "p\<lparr>shape := transposeReverse (shape p)\<rparr>"
  from rect have rot: "rotateShape (shape p) = Inr (transposeReverse (shape p))"
    and rect': "isRect (shape ?q)"
    by (simp_all add: isRect_rotate)
  from isValidMove_total [OF wf] obtain ok where
    ok: "isValidMove (board s) ?q (pos_x (position s)) (pos_y (position s)) = Inr ok"
    by blast
  show ?thesis
  proof (cases ok)
    case True
    with ok wf y have "onBoard (shape ?q) \<lparr>pos_x = pos_x (position s), pos_y = pos_y (position s)\<rparr>"
      by (intro isValidMove_onBoard [of "board s"]) simp_all
    then have "onBoard (shape ?q) (position s)"
      by (simp add: onBoard_def)
    with True ok rot rect' st Some show ?thesis
      by (simp add: rotate_piece_def settled_def)
  next
    case False
    with ok rot st Some show ?thesis
      by (simp add: rotate_piece_def)
  qed
qed

lemma moveDown_settled:
  assumes "invariant s" "\<not> gameOver s" "i < length TETROMINOS"
  shows "\<exists>t. moveDown i s s = Inr t \<and> settled t \<and> keepsOccupied (board s) (board t) \<and>
             score t = score s \<and> gameOver t = gameOver s"
proof (cases "currentPiece s")
  case None
  with assms show ?thesis
    by (simp add: moveDown_def invariant_settled keepsOccupied_refl)
next
  case (Some p)
  from assms have st: "settled s" by (simp add: invariant_settled)
  then have wf: "wfBoard (board s)" and y: "0 \<le> pos_y (position s)"
    by (simp_all add: settled_def)
  from st Some have on: "onBoard (shape p) (position s)"
    by (simp add: settled_def)
  from assms Some have valid:
    "isValidMove (board s) p (pos_x (position s)) (pos_y (position s)) = Inr True"
    by (simp add: invariant_def)
  from moveDown_cases [OF Some wf, of i] show ?thesis
  proof
    assume ok: "isValidMove (board s) p (pos_x (position s)) (pos_y (position s) + 1) = Inr True \<and>
      moveDown i s s = Inr (s\<lparr>position := (position s)\<lparr>pos_y := pos_y (position s) + 1\<rparr>\<rparr>)"
    with wf y have "onBoard (shape p) \<lparr>pos_x = pos_x (position s), pos_y = pos_y (position s) + 1\<rparr>"
      by (intro isValidMove_onBoard [of "board s"]) simp_all
    with ok st Some y show ?thesis
      by (simp add: settled_def point_eq keepsOccupied_refl)
  next
    assume "isValidMove (board s) p (pos_x (position s)) (pos_y (position s) + 1) = Inr False \<and>
          (onBoard (shape p) (position s) \<longrightarrow>
            (\<exists>newBoard.
               moveDown i s s =
                 Inr (s\<lparr>board := newBoard, currentPiece := Some (TETROMINOS ! i),
                        position := \<lparr>pos_x = BOARD_WIDTH div 2 - 1, pos_y = 0\<rparr>\<rparr>) \<and>
               wfBoard newBoard \<and>
               (\<forall>r<nat BOARD_HEIGHT. \<forall>c<nat BOARD_WIDTH.
                  newBoard ! r ! c =
                    (if (int c, int r) \<in> set (cellsAt (shape p) (pos_x (position s)) (pos_y (position s)))
                     then Str (color p) else board s ! r ! c))))"
    with on obtain newBoard where
      run: "moveDown i s s =
                 Inr (s\<lparr>board := newBoard, currentPiece := Some (TETROMINOS ! i),
                        position := \<lparr>pos_x = BOARD_WIDTH div 2 - 1, pos_y = 0\<rparr>\<rparr>)" and
      wf': "wfBoard newBoard" and
      cells: "\<And>r c. r < nat BOARD_HEIGHT \<Longrightarrow> c < nat BOARD_WIDTH \<Longrightarrow>
                  newBoard ! r ! c =
                    (if (int c, int r) \<in> set (cellsAt (shape p) (pos_x (position s)) (pos_y (position s)))
                     then Str (color p) else board s ! r ! c)"
      by blast
    have "newBoard ! r ! c = board s ! r ! c"
      if "r < nat BOARD_HEIGHT" "c < nat BOARD_WIDTH" "board s ! r ! c \<noteq> Zero" for r c
    proof -
      have "(int c, int r) \<notin> set (cellsAt (shape p) (pos_x (position s)) (pos_y (position s)))"
      proof
        assume "(int c, int r) \<in> set (cellsAt (shape p) (pos_x (position s)) (pos_y (position s)))"
        from isValidMove_free [OF wf valid this] that(3) show False
          by simp
      qed
      with cells [OF that(1,2)] show ?thesis
        by simp
    qed
    then have keeps: "keepsOccupied (board s) newBoard"
      by (simp add: keepsOccupied_def)
    from st assms(2) have "settled (s\<lparr>board := newBoard, currentPiece := Some (TETROMINOS ! i),
                        position := \<lparr>pos_x = BOARD_WIDTH div 2 - 1, pos_y = 0\<rparr>\<rparr>)"
      using wf' TETROMINOS_spawn [OF assms(3)] by (simp add: settled_def)
    with run keeps show ?thesis
      by simp
  qed
qed

lemma handleKeyPress_settled:
  assumes "invariant s" "i < length TETROMINOS"
  shows "\<exists>t. handleKeyPress i key s = Inr t \<and> settled t \<and> keepsOccupied (board s) (board t) \<and>
             score t = score s \<and> gameOver t = gameOver s \<and> (gameOver s \<longrightarrow> t = s)"
proof (cases "gameOver s")
  case True
  with assms show ?thesis
    by (simp add: handleKeyPress_def invariant_settled keepsOccupied_refl)
next
  case False
  let ?P = "\<lambda>r. \<exists>t. r = Inr t \<and> settled t \<and> keepsOccupied (board s) (board t) \<and>
             score t = score s \<and> gameOver t = gameOver s"
  have left: "?P (moveHorizontally (- 1) s s)" and right: "?P (moveHorizontally 1 s s)"
    using moveHorizontally_settled [OF assms(1), of "- 1"] moveHorizontally_settled [OF assms(1), of 1]
    by (auto simp: keepsOccupied_refl)
  have down: "?P (moveDown i s s)"
    using moveDown_settled [OF assms(1) False assms(2)] by blast
  have up: "?P (rotate_piece s s)"
    using rotate_settled [OF assms(1)] by (auto simp: keepsOccupied_refl)
  have other: "?P (Inr s)"
    using invariant_settled [OF assms(1)] by (simp add: keepsOccupied_refl)
  have "handleKeyPress i key s \<in>
          {moveHorizontally (- 1) s s, moveHorizontally 1 s s, moveDown i s s, rotate_piece s s, Inr s}"
    by (simp add: handleKeyPress_def)
  then consider "handleKeyPress i key s = moveHorizontally (- 1) s s"
    | "handleKeyPress i key s = moveHorizontally 1 s s"
    | "handleKeyPress i key s = moveDown i s s"
    | "handleKeyPress i key s = rotate_piece s s"
    | "handleKeyPress i key s = Inr s"
    by blast
  then show ?thesis
    using left right down up other False by cases simp_all
qed

lemma tick_settled:
  assumes "invariant s" "i < length TETROMINOS"
  shows "\<exists>t. tick i s = Inr t \<and> settled t \<and> gameOver t = gameOver s \<and> (gameOver s \<longrightarrow> t = s)"
proof (cases "gameOver s")
  case True
  with assms show ?thesis
    by (simp add: tick_def invariant_settled)
next
  case False
  from moveDown_settled [OF assms(1) False assms(2)] obtain t where
    t: "moveDown i s s = Inr t" "settled t" "gameOver t = gameOver s"
    by blast
  from assms(1) have wf: "wfBoard (board s)"
    by (simp add: invariant_def settled_def)
  have same: "currentPiece (checkLines s t) = currentPiece t" "position (checkLines s t) = position t"
    "gameOver (checkLines s t) = gameOver t"
    by (simp_all add: checkLines_def Let_def)
  with t(2) checkLines_wfBoard [OF wf, of t] have "settled (checkLines s t)"
    by (simp add: settled_def)
  with t(1,3) False same show ?thesis
    by (simp add: tick_def)
qed

lemma gameOverEffect_invariant:
  assumes "settled t" "currentPiece t = Some p"
  shows "\<exists>t'. gameOverEffect t = Inr t' \<and> invariant t' \<and> (gameOver t \<longrightarrow> t' = t)"
proof -
  from assms(1) have wf: "wfBoard (board t)"
    by (simp add: settled_def)
  from isValidMove_total [OF wf] obtain ok where
    ok: "isValidMove (board t) p (pos_x (position t)) (pos_y (position t)) = Inr ok"
    by blast
  show ?thesis
  proof (cases ok)
    case True
    with ok assms show ?thesis
      by (simp add: gameOverEffect_def invariant_def)
  next
    case False
    with ok assms have "gameOverEffect t = Inr (t\<lparr>gameOver := True\<rparr>)"
      by (simp add: gameOverEffect_def)
    moreover from assms have "invariant (t\<lparr>gameOver := True\<rparr>)"
      by (simp add: invariant_def settled_def)
    ultimately show ?thesis
      by simp
  qed
qed

lemma effects_invariant:
  assumes "settled t" "i < length TETROMINOS"
  shows "\<exists>t'. effects i t = Inr t' \<and> invariant t' \<and> (gameOver t \<longrightarrow> t' = t)"
proof (cases "currentPiece t")
  case None
  with assms(1) have playing: "\<not> gameOver t"
    by (auto simp: settled_def)
  let ?u = "spawnNewPiece i t"
  from assms None have "settled ?u"
    using TETROMINOS_spawn [OF assms(2)] by (simp add: settled_def spawnNewPiece_def)
  moreover have "currentPiece ?u = Some (TETROMINOS ! i)"
    by (simp add: spawnNewPiece_def)
  ultimately have "\<exists>t'. gameOverEffect ?u = Inr t' \<and> invariant t' \<and> (gameOver ?u \<longrightarrow> t' = ?u)"
    by (rule gameOverEffect_invariant)
  with None playing show ?thesis
    by (auto simp: effects_def spawnEffect_def)
next
  case (Some p)
  with gameOverEffect_invariant [OF assms(1) Some] show ?thesis
    by (simp add: effects_def spawnEffect_def)
qed

lemma step_invariant:
  assumes "invariant s" "i < length TETROMINOS"
  shows "\<exists>s'. step i ev s = Inr s' \<and> invariant s' \<and> (gameOver s \<longrightarrow> s' = s)"
proof -
  have "\<exists>t. (case ev of KeyDown key \<Rightarrow> handleKeyPress i key s | Tick \<Rightarrow> tick i s) = Inr t \<and>
            settled t \<and> gameOver t = gameOver s \<and> (gameOver s \<longrightarrow> t = s)"
  proof (cases ev)
    case (KeyDown key)
    with handleKeyPress_settled [OF assms, of key] show ?thesis
      by auto
  next
    case Tick
    with tick_settled [OF assms] show ?thesis
      by auto
  qed
  then obtain t where t: "(case ev of KeyDown key \<Rightarrow> handleKeyPress i key s | Tick \<Rightarrow> tick i s) = Inr t"
    "settled t" "gameOver t = gameOver s" "gameOver s \<longrightarrow> t = s"
    by blast
  from effects_invariant [OF t(2) assms(2)] t show ?thesis
    by (auto simp: step_def)
qed

lemma invariant_initialState: "invariant initialState"
proof -
  have "wfBoard createEmptyBoard"
    by code_simp
  then show ?thesis
    by (simp add: invariant_def settled_def initialState_def)
qed

lemma reachable_invariant: "reachable s \<Longrightarrow> invariant s"
proof (induction rule: reachable.induct)
  case first_render
  show ?case by (rule invariant_initialState)
next
  case (mounted i s)
  from effects_invariant [OF invariant_settled [OF invariant_initialState] mounted(1)] mounted(2)
  show ?case by auto
next
  case (stepped s i ev s')
  from step_invariant [OF stepped.IH stepped(2), of ev] stepped(3)
  show ?case by auto
qed

subsection \<open>Runs and example states\<close>

lemma reachable_run:
  "reachable s \<Longrightarrow> list_all (\<lambda>(i, ev). i < length TETROMINOS) evs \<Longrightarrow> run evs s = Inr s' \<Longrightarrow>
   reachable s'"
proof (induction evs arbitrary: s)
  case Nil
  then show ?case by simp
next
  case (Cons iev evs)
  obtain i ev where iev: "iev = (i, ev)"
    by (cases iev)
  with Cons.prems(3) obtain s1 where s1: "step i ev s = Inr s1" "run evs s1 = Inr s'"
    by (auto split: sum.splits)
  from Cons.prems(2) iev have i: "i < length TETROMINOS" and rest: "list_all (\<lambda>(i, ev). i < length TETROMINOS) evs"
    by simp_all
  from Cons.prems(1) i s1(1) have "reachable s1"
    by (rule reachable.stepped)
  from Cons.IH [OF this rest s1(2)] show ?case .
qed

lemma reachable_mountedState: "reachable mountedState"
proof -
  have "(1::nat) < length TETROMINOS"
    by code_simp
  moreover have "effects 1 initialState = Inr mountedState"
    by code_simp
  ultimately show ?thesis
    by (rule reachable.mounted)
qed

lemma reachable_uprightAtFloor: "reachable uprightAtFloor"
proof -
  have "list_all (\<lambda>(i, ev). i < length TETROMINOS) (take 17 (dropUpright 16))"
    by code_simp
  moreover have "run (take 17 (dropUpright 16)) mountedState = Inr uprightAtFloor"
    by code_simp
  ultimately show ?thesis
    by (rule reachable_run [OF reachable_mountedState])
qed

lemma reachable_lostState: "reachable lostState"
proof -
  have "list_all (\<lambda>(i, ev). i < length TETROMINOS) stackColumn"
    by code_simp
  moreover have "run stackColumn mountedState = Inr lostState"
    by code_simp
  ultimately show ?thesis
    by (rule reachable_run [OF reachable_mountedState])
qed

subsection \<open>The end of the game\<close>

lemma gameOverEffect_latch: "gameOverEffect t = Inr t' \<Longrightarrow> gameOver t \<Longrightarrow> gameOver t'"
  by (auto simp: gameOverEffect_def split: option.splits sum.splits if_splits)

lemma effects_latch: "effects i t = Inr t' \<Longrightarrow> gameOver t \<Longrightarrow> gameOver t'"
  unfolding effects_def
  by (rule gameOverEffect_latch [of "spawnEffect i t"]) (simp_all add: spawnEffect_def spawnNewPiece_def)

lemma effects_gameOver:
  assumes "gameOver s" "wfBoard (board s)" "currentPiece s = Some p"
  shows "effects i s = Inr s"
proof -
  from isValidMove_total [OF assms(2)] obtain ok where
    "isValidMove (board s) p (pos_x (position s)) (pos_y (position s)) = Inr ok"
    by blast
  moreover from assms(1) have "s\<lparr>gameOver := True\<rparr> = s"
    by simp
  ultimately show ?thesis
    using assms(3) by (simp add: effects_def spawnEffect_def gameOverEffect_def)
qed

text \<open>
  Claim C5. In a state whose \<open>gameOver\<close> flag is set, the key handler and the interval
  callback return the state as it is, so \<open>moveDown\<close>, \<open>moveHorizontally\<close> and \<open>rotate\<close>
  are not called and board, piece, position and score stay; whatever state a step leads
  to has the flag set; and a step from such a state with a board of the fixed dimensions
  and a current piece, so from every reachable one, leads to the same state.
\<close>

theorem gameOver_absorbing:
  assumes "gameOver s"
  shows "handleKeyPress i key s = Inr s \<and> tick i s = Inr s \<and>
         (\<forall>s'. step i ev s = Inr s' \<longrightarrow> gameOver s') \<and>
         (wfBoard (board s) \<and> currentPiece s \<noteq> None \<longrightarrow> step i ev s = Inr s) \<and>
         (reachable s \<longrightarrow> step i ev s = Inr s)"
proof -
  from assms have h: "handleKeyPress i key s = Inr s" for key
    by (simp add: handleKeyPress_def)
  from assms have t: "tick i s = Inr s"
    by (simp add: tick_def)
  have st: "step i ev s = effects i s"
    by (cases ev) (simp_all add: step_def h t)
  have fixed: "step i ev s = Inr s" if "wfBoard (board s)" "currentPiece s \<noteq> None"
    using that assms effects_gameOver [of s] st by auto
  have "wfBoard (board s) \<and> currentPiece s \<noteq> None" if "reachable s"
    using reachable_invariant [OF that] assms by (simp add: invariant_def settled_def)
  with fixed h t st effects_latch [of i s] assms show ?thesis
    by auto
qed

text \<open>
  The state reached by stacking five upright I pieces in column 4: a tick and a key
  press leave it as it is.
\<close>

theorem gameOver_absorbing_witness:
  "gameOver lostState \<and> reachable lostState \<and>
   wfBoard (board lostState) \<and> currentPiece lostState \<noteq> None \<and>
   handleKeyPress 0 ''ArrowDown'' lostState = Inr lostState \<and>
   tick 0 lostState = Inr lostState \<and>
   step 0 Tick lostState = Inr lostState \<and>
   step 0 (KeyDown ''ArrowUp'') lostState = Inr lostState"
proof -
  have g: "gameOver lostState"
    by (simp add: lostState_def)
  have wf: "wfBoard (board lostState)" and p: "currentPiece lostState \<noteq> None"
    by code_simp+
  from gameOver_absorbing [OF g, of 0 "''ArrowDown''" Tick]
    gameOver_absorbing [OF g, of 0 "''ArrowDown''" "KeyDown ''ArrowUp''"]
    reachable_lostState g wf p
  show ?thesis
    by blast
qed

subsection \<open>The board and the score along a run\<close>

lemma gameOverEffect_same:
  "gameOverEffect t = Inr t' \<Longrightarrow> board t' = board t \<and> score t' = score t"
  by (auto simp: gameOverEffect_def split: option.splits sum.splits if_splits)

lemma effects_same:
  assumes "effects i t = Inr t'"
  shows "board t' = board t" and "score t' = score t"
  using gameOverEffect_same [of "spawnEffect i t" t'] assms
  by (simp_all add: effects_def spawnEffect_def spawnNewPiece_def)

lemma moveDown_score: "moveDown i s t = Inr t' \<Longrightarrow> score t' = score t"
  by (auto simp: moveDown_def mergePieceToBoard_def spawnNewPiece_def
           split: option.splits sum.splits bool.splits)

lemma moveHorizontally_score: "moveHorizontally d s t = Inr t' \<Longrightarrow> score t' = score t"
  by (auto simp: moveHorizontally_def split: option.splits sum.splits bool.splits)

lemma rotate_score: "rotate_piece s t = Inr t' \<Longrightarrow> score t' = score t"
  by (auto simp: rotate_piece_def Let_def split: option.splits sum.splits bool.splits)

lemma handleKeyPress_score:
  assumes "handleKeyPress i key s = Inr t"
  shows "score t = score s"
proof -
  have "handleKeyPress i key s \<in>
          {moveHorizontally (- 1) s s, moveHorizontally 1 s s, moveDown i s s, rotate_piece s s, Inr s}"
    by (simp add: handleKeyPress_def)
  then consider "moveHorizontally (- 1) s s = Inr t" | "moveHorizontally 1 s s = Inr t"
    | "moveDown i s s = Inr t" | "rotate_piece s s = Inr t" | "t = s"
    using assms by auto
  then show ?thesis
    by cases (simp_all add: moveHorizontally_score moveDown_score rotate_score)
qed

lemma tick_score:
  assumes "wfBoard (board s)" "tick i s = Inr t"
  shows "score t = score s + 100 * (if gameOver s then 0 else int (length (filter fullRow (board s))))"
proof (cases "gameOver s")
  case True
  with assms(2) show ?thesis
    by (simp add: tick_def)
next
  case False
  with assms(2) obtain t1 where "moveDown i s s = Inr t1" "t = checkLines s t1"
    by (auto simp: tick_def split: sum.splits)
  with False show ?thesis
    by (simp add: checkLines_wf [OF assms(1)])
qed

lemma step_score:
  assumes "wfBoard (board s)" "step i ev s = Inr s'"
  shows "score s' = score s +
           100 * (if ev = Tick \<and> \<not> gameOver s then int (length (filter fullRow (board s))) else 0)"
proof (cases ev)
  case (KeyDown key)
  with assms(2) obtain t where "handleKeyPress i key s = Inr t" "effects i t = Inr s'"
    by (auto simp: step_def split: sum.splits)
  with KeyDown show ?thesis
    by (simp add: handleKeyPress_score effects_same)
next
  case Tick
  with assms(2) obtain t where "tick i s = Inr t" "effects i t = Inr s'"
    by (auto simp: step_def split: sum.splits)
  with Tick tick_score [OF assms(1), of i t] show ?thesis
    by (simp add: effects_same)
qed

text \<open>
  Claim C9. A step of the engine never lowers the score: a key press leaves it as it is,
  and so does a tick once the game is over; a tick in play adds 100 for each full row of
  the board, the rows that \<open>checkLines\<close> removes. The board has the fixed dimensions, as
  in every reachable state.
\<close>

theorem score_never_decreases:
  assumes "wfBoard (board s)" "step i ev s = Inr s'"
  shows "score s \<le> score s' \<and>
         score s' = score s +
           100 * (if ev = Tick \<and> \<not> gameOver s then int (length (filter fullRow (board s))) else 0)"
  using step_score [OF assms] by simp

text \<open>A tick on the board with two full rows adds 200; a key press adds nothing.\<close>

theorem score_never_decreases_witness:
  "wfBoard (board (playing twoFullRows (TETROMINOS ! 0) 4 0)) \<and>
   (\<exists>s'. step 0 Tick (playing twoFullRows (TETROMINOS ! 0) 4 0) = Inr s' \<and> score s' = 200) \<and>
   (\<exists>s'. step 0 (KeyDown ''ArrowDown'') (playing twoFullRows (TETROMINOS ! 0) 4 0) = Inr s' \<and> score s' = 0)"
proof -
  let ?s = "playing twoFullRows (TETROMINOS ! 0) 4 0"
  have wf: "wfBoard (board ?s)"
    unfolding playing_def by code_simp
  have two: "length (filter fullRow (board ?s)) = 2" and g: "\<not> gameOver ?s" and sc: "score ?s = 0"
    unfolding playing_def by code_simp+
  have "\<not> isl (step 0 Tick ?s)"
    by code_simp
  then obtain s1 where s1: "step 0 Tick ?s = Inr s1"
    by (cases "step 0 Tick ?s") simp_all
  have "\<not> isl (step 0 (KeyDown ''ArrowDown'') ?s)"
    by code_simp
  then obtain s2 where s2: "step 0 (KeyDown ''ArrowDown'') ?s = Inr s2"
    by (cases "step 0 (KeyDown ''ArrowDown'') ?s") simp_all
  from score_never_decreases [OF wf s1] two g sc have "score s1 = 200"
    by simp
  moreover from score_never_decreases [OF wf s2] sc have "score s2 = 0"
    by simp
  ultimately show ?thesis
    using wf s1 s2 by blast
qed

text \<open>
  The board after the interval callback is the one \<open>checkLines\<close> computes from the
  board of the render: \<open>checkLines\<close> does not read what \<open>moveDown\<close> has queued, and its
  \<open>setBoard\<close> comes last. A piece that \<open>moveDown\<close> merges in that callback is therefore
  not on the board afterwards, while one merged by the key handler is.
\<close>

lemma tick_board:
  assumes "\<not> gameOver s" "tick i s = Inr t"
  shows "board t = board (checkLines s s)"
proof -
  from assms obtain t1 where "moveDown i s s = Inr t1" "t = checkLines s t1"
    by (auto simp: tick_def split: sum.splits)
  then show ?thesis
    by (simp add: checkLines_def Let_def)
qed

text \<open>
  Claim C2 says that \<open>moveDown\<close>, when \<open>isValidMove\<close> fails one row down, copies the
  color of the piece into the board under its occupied cells and spawns the next piece
  at column \<open>BOARD_WIDTH div 2 - 1\<close>, row 0. The source does so when the down key calls
  \<open>moveDown\<close>, and not when the interval callback does. The upright I piece stands on
  the floor of the empty board, a state the engine reaches, and \<open>isValidMove\<close> fails
  one row down. After the key press column 4 holds the piece in rows 16 to 19. After
  the tick the next piece is spawned and the board is empty: the settled piece is in
  no cell.
\<close>

theorem tick_settle_drops_piece:
  "reachable uprightAtFloor \<and> \<not> gameOver uprightAtFloor \<and>
   isValidMove (board uprightAtFloor) (piece [[1], [1], [1], [1]] ''#00f0f0'') 4 (16 + 1) = Inr False \<and>
   step 1 (KeyDown ''ArrowDown'') uprightAtFloor =
     Inr (playing (replicate 16 emptyRow @
                   replicate 4 (replicate 4 Zero @ [Str ''#00f0f0''] @ replicate 5 Zero))
            (TETROMINOS ! 1) 4 0) \<and>
   step 1 Tick uprightAtFloor = Inr (playing createEmptyBoard (TETROMINOS ! 1) 4 0)"
proof -
  have "\<not> gameOver uprightAtFloor"
    by code_simp
  moreover have "isValidMove (board uprightAtFloor) (piece [[1], [1], [1], [1]] ''#00f0f0'') 4 (16 + 1) = Inr False"
    by code_simp
  moreover have "step 1 (KeyDown ''ArrowDown'') uprightAtFloor =
     Inr (playing (replicate 16 emptyRow @
                   replicate 4 (replicate 4 Zero @ [Str ''#00f0f0''] @ replicate 5 Zero))
            (TETROMINOS ! 1) 4 0)"
    by code_simp
  moreover have "step 1 Tick uprightAtFloor = Inr (playing createEmptyBoard (TETROMINOS ! 1) 4 0)"
    by code_simp
  ultimately show ?thesis
    using reachable_uprightAtFloor by blast
qed

lemma step_KeyDown_keeps:
  assumes "invariant s" "i < length TETROMINOS"
  shows "\<exists>s'. step i (KeyDown key) s = Inr s' \<and> wfBoard (board s') \<and> keepsOccupied (board s) (board s')"
proof -
  from handleKeyPress_settled [OF assms, of key] obtain t where
    t: "handleKeyPress i key s = Inr t" "settled t" "keepsOccupied (board s) (board t)"
    by blast
  from effects_invariant [OF t(2) assms(2)] obtain s' where
    s': "effects i t = Inr s'" "invariant s'"
    by blast
  from s'(1) have "board s' = board t"
    by (rule effects_same)
  with t s' show ?thesis
    by (simp add: step_def invariant_def settled_def)
qed

text \<open>
  Claim C7. In every reachable state the board has \<open>BOARD_HEIGHT\<close> rows of \<open>BOARD_WIDTH\<close>
  cells. A step for a key press, whatever the key, so whichever of \<open>moveHorizontally\<close>,
  \<open>rotate\<close> and \<open>moveDown\<close> with its merge it calls, leaves every board cell that is
  not 0 as it is, and so does \<open>moveDown\<close> as the interval callback calls it while the
  game is not over. Only \<open>checkLines\<close>, which removes whole rows, is left out.
\<close>

theorem board_dimensions_and_settled_cells:
  assumes "reachable s" "i < length TETROMINOS"
  shows "wfBoard (board s) \<and>
         (\<exists>s'. step i (KeyDown key) s = Inr s' \<and> wfBoard (board s') \<and>
               keepsOccupied (board s) (board s')) \<and>
         (\<not> gameOver s \<longrightarrow>
            (\<exists>t. moveDown i s s = Inr t \<and> keepsOccupied (board s) (board t)))"
proof -
  from assms(1) have inv: "invariant s"
    by (rule reachable_invariant)
  then have "wfBoard (board s)"
    by (simp add: invariant_def settled_def)
  moreover have "\<exists>t. moveDown i s s = Inr t \<and> keepsOccupied (board s) (board t)" if "\<not> gameOver s"
    using moveDown_settled [OF inv that assms(2)] by blast
  ultimately show ?thesis
    using step_KeyDown_keeps [OF inv assms(2), of key] by blast
qed

text \<open>
  The upright I piece above the floor: pressing down settles it, and the cells it
  fills were 0 before.
\<close>

theorem board_dimensions_and_settled_cells_witness:
  "reachable uprightAtFloor \<and> (1::nat) < length TETROMINOS \<and> \<not> gameOver uprightAtFloor \<and>
   wfBoard (board uprightAtFloor) \<and>
   (\<exists>s'. step 1 (KeyDown ''ArrowDown'') uprightAtFloor = Inr s' \<and> wfBoard (board s') \<and>
         board s' ! 19 ! 4 = Str ''#00f0f0'')"
proof -
  have i: "(1::nat) < length TETROMINOS"
    by code_simp
  have g: "\<not> gameOver uprightAtFloor"
    by code_simp
  have cell: "case step 1 (KeyDown ''ArrowDown'') uprightAtFloor of
                Inl err \<Rightarrow> False | Inr s' \<Rightarrow> board s' ! 19 ! 4 = Str ''#00f0f0''"
    by code_simp
  from board_dimensions_and_settled_cells [OF reachable_uprightAtFloor i, of "''ArrowDown''"]
  obtain s' where "wfBoard (board uprightAtFloor)"
    "step 1 (KeyDown ''ArrowDown'') uprightAtFloor = Inr s'" "wfBoard (board s')"
    "keepsOccupied (board uprightAtFloor) (board s')"
    by blast
  with cell reachable_uprightAtFloor i g show ?thesis
    by auto
qed

subsection \<open>The piece stays on the board\<close>

lemma mergePieceToBoard_onBoard:
  assumes "wfBoard (board s)" "currentPiece s = Some p" "onBoard (shape p) (position s)"
  shows "\<exists>newBoard. mergePieceToBoard s s = Inr (s\<lparr>board := newBoard\<rparr>) \<and> wfBoard newBoard"
  using mergeRows_onBoard [OF assms(1,3), of "color p"] assms(2)
  by (auto simp: mergePieceToBoard_def)

text \<open>
  Claim C10. In every reachable state the row of the origin is 0 or more, and every
  occupied cell of the current piece has its column from 0 to \<open>BOARD_WIDTH - 1\<close> and its
  row from 0 to \<open>BOARD_HEIGHT - 1\<close>. So \<open>mergePieceToBoard\<close> in such a state writes inside
  the board only: it returns a board of the same dimensions and does not throw. No
  piece is above the board when it settles.
\<close>

theorem piece_on_board_at_merge:
  assumes "reachable s"
  shows "0 \<le> pos_y (position s) \<and>
         (\<forall>p. currentPiece s = Some p \<longrightarrow>
            (\<forall>(column, row)\<in>set (cellsAt (shape p) (pos_x (position s)) (pos_y (position s))).
               0 \<le> column \<and> column < BOARD_WIDTH \<and> 0 \<le> row \<and> row < BOARD_HEIGHT) \<and>
            (\<exists>newBoard. mergePieceToBoard s s = Inr (s\<lparr>board := newBoard\<rparr>) \<and> wfBoard newBoard))"
proof -
  from assms have "invariant s"
    by (rule reachable_invariant)
  then have st: "settled s"
    by (rule invariant_settled)
  then have y: "0 \<le> pos_y (position s)" and wf: "wfBoard (board s)"
    by (simp_all add: settled_def)
  have "(\<forall>(column, row)\<in>set (cellsAt (shape p) (pos_x (position s)) (pos_y (position s))).
               0 \<le> column \<and> column < BOARD_WIDTH \<and> 0 \<le> row \<and> row < BOARD_HEIGHT) \<and>
        (\<exists>newBoard. mergePieceToBoard s s = Inr (s\<lparr>board := newBoard\<rparr>) \<and> wfBoard newBoard)"
    if p: "currentPiece s = Some p" for p
  proof -
    from st p have on: "onBoard (shape p) (position s)"
      by (simp add: settled_def)
    then have "\<forall>(column, row)\<in>set (cellsAt (shape p) (pos_x (position s)) (pos_y (position s))).
               0 \<le> column \<and> column < BOARD_WIDTH \<and> 0 \<le> row \<and> row < BOARD_HEIGHT"
      by (simp add: onBoard_def list_all_iff)
    with mergePieceToBoard_onBoard [OF wf p on] show ?thesis
      by blast
  qed
  with y show ?thesis
    by blast
qed

text \<open>The upright I piece above the floor, reached by one turn and 16 rows down.\<close>

theorem piece_on_board_at_merge_witness:
  "reachable uprightAtFloor \<and> pos_y (position uprightAtFloor) = 16 \<and>
   set (cellsAt [[Num 1], [Num 1], [Num 1], [Num 1]] 4 16) = {(4, 16), (4, 17), (4, 18), (4, 19)} \<and>
   (\<exists>newBoard. mergePieceToBoard uprightAtFloor uprightAtFloor = Inr (uprightAtFloor\<lparr>board := newBoard\<rparr>) \<and>
      wfBoard newBoard)"
proof -
  have p: "currentPiece uprightAtFloor = Some (piece [[1], [1], [1], [1]] ''#00f0f0'')"
    by (simp add: uprightAtFloor_def playing_def)
  have y: "pos_y (position uprightAtFloor) = 16"
    by (simp add: uprightAtFloor_def playing_def)
  have cells: "set (cellsAt [[Num 1], [Num 1], [Num 1], [Num 1]] 4 16) = {(4, 16), (4, 17), (4, 18), (4, 19)}"
    by code_simp
  from piece_on_board_at_merge [OF reachable_uprightAtFloor] p
  have "\<exists>newBoard. mergePieceToBoard uprightAtFloor uprightAtFloor = Inr (uprightAtFloor\<lparr>board := newBoard\<rparr>) \<and>
      wfBoard newBoard"
    by blast
  with reachable_uprightAtFloor y cells show ?thesis
    by blast
qed

end
